theory Spec2Isabelle
  imports Complex_Main
begin

section \<open>Python values: errors and indexing\<close>

text \<open>
  The functions \<open>social_interactions\<close> and \<open>check_f_formations\<close> of
  \<open>monstereo/activity.py\<close> compute with Python floats; the embedding takes them as
  real numbers (\<open>math.sqrt\<close>, \<open>math.cos\<close>, \<open>math.sin\<close> are \<open>sqrt\<close>, \<open>cos\<close>,
  \<open>sin\<close>), so the rounding of double precision, infinities and NaN are outside the
  model. The one conversion the code makes to a shorter format, the \<open>float32\<close> of the
  torch tensors on the probabilistic path, is in the model. An exception is a value
  \<open>Inl e\<close> of the result type.
\<close>

datatype error = IndexError | RuntimeError | TypeError

type_synonym center = "real \<times> real"

definition py_index :: "'a list \<Rightarrow> int \<Rightarrow> error + 'a" where
  \<comment> \<open>\<open>xs[i]\<close>: an index from \<open>-len(xs)\<close> up to \<open>-1\<close> counts from the end.\<close>
  "py_index xs i =
     (if 0 \<le> i \<and> i < int (length xs) then Inr (xs ! nat i)
      else if - int (length xs) \<le> i \<and> i < 0 then Inr (xs ! nat (int (length xs) + i))
      else Inl IndexError)"

definition py_setitem :: "'a list \<Rightarrow> int \<Rightarrow> 'a \<Rightarrow> 'a list" where
  \<comment> \<open>\<open>xs[i] = v\<close> at an index that \<open>py_index\<close> has accepted.\<close>
  "py_setitem xs i v =
     (if 0 \<le> i then xs[nat i := v] else xs[nat (int (length xs) + i) := v])"

definition vsub :: "center \<Rightarrow> center \<Rightarrow> center" where
  "vsub a b = (fst a - fst b, snd a - snd b)"

definition norm2 :: "center \<Rightarrow> real" where
  \<comment> \<open>\<open>np.linalg.norm\<close> of a vector of two components.\<close>
  "norm2 v = sqrt ((fst v)\<^sup>2 + (snd v)\<^sup>2)"

section \<open>The F-formation tester\<close>

text \<open>
  \<open>check_f_formations\<close>, lines 76 to 113. \<open>other_centers\<close> keeps the centers whose
  position in the list is neither \<open>idx\<close> nor \<open>idx_t\<close> (the comparison is between
  integers, so a negative \<open>idx\<close> excludes nobody). \<open>radius_test\<close> is the body of the
  loop over the radii, from \<open>mu_0\<close> to the condition of the \<open>if\<close>; an empty
  \<open>other_centers\<close> is replaced by the single distance 100.
\<close>

definition other_centers :: "int \<Rightarrow> int \<Rightarrow> center list \<Rightarrow> center list" where
  "other_centers idx idx_t centers =
     map snd (filter (\<lambda>(l, cent). int l \<noteq> idx \<and> int l \<noteq> idx_t) (enumerate 0 centers))"

definition radius_test ::
  "center \<Rightarrow> center \<Rightarrow> real \<Rightarrow> real \<Rightarrow> center list \<Rightarrow> bool \<Rightarrow> real \<Rightarrow> bool" where
  "radius_test x_0 x_1 theta0 theta1 others social_distance radius =
     (let mu_0 = (fst x_0 + radius * cos theta0, snd x_0 - radius * sin theta0);
          mu_1 = (fst x_1 + radius * cos theta1, snd x_1 - radius * sin theta1);
          o_c = ((fst mu_0 + fst mu_1) / 2, (snd mu_0 + snd mu_1) / 2);
          d_new = (if social_distance then norm2 (vsub mu_0 mu_1) / 2
                   else norm2 (vsub mu_0 mu_1));
          d_0 = norm2 (vsub x_0 o_c);
          d_1 = norm2 (vsub x_1 o_c);
          other_distances = (if others \<noteq> [] then map (\<lambda>c. norm2 (vsub c o_c)) others
                             else [100])
      in d_new \<le> min d_0 d_1 \<and> Min (set other_distances) > radius)"

fun radii_loop ::
  "int \<Rightarrow> int \<Rightarrow> center list \<Rightarrow> real \<Rightarrow> real \<Rightarrow> center list \<Rightarrow> bool \<Rightarrow> real list
     \<Rightarrow> error + bool" where
  "radii_loop idx idx_t centers theta0 theta1 others social_distance [] = Inr False"
| "radii_loop idx idx_t centers theta0 theta1 others social_distance (radius # radii) =
     (case py_index centers idx of
        Inl e \<Rightarrow> Inl e
      | Inr x_0 \<Rightarrow>
          (case py_index centers idx_t of
             Inl e \<Rightarrow> Inl e
           | Inr x_1 \<Rightarrow>
               if radius_test x_0 x_1 theta0 theta1 others social_distance radius
               then Inr True
               else radii_loop idx idx_t centers theta0 theta1 others social_distance radii))"

definition check_f_formations ::
  "int \<Rightarrow> int \<Rightarrow> center list \<Rightarrow> real list \<Rightarrow> real list \<Rightarrow> bool \<Rightarrow> error + bool" where
  "check_f_formations idx idx_t centers angles radii social_distance =
     (let others = other_centers idx idx_t centers in
      case py_index angles idx of
        Inl e \<Rightarrow> Inl e
      | Inr theta0 \<Rightarrow>
          (case py_index angles idx_t of
             Inl e \<Rightarrow> Inl e
           | Inr theta1 \<Rightarrow>
               radii_loop idx idx_t centers theta0 theta1 others social_distance radii))"

section \<open>The social interaction evaluator\<close>

text \<open>
  \<open>np.argsort\<close> of the distances: the positions \<open>0 .. N-1\<close> ordered by ascending
  distance. NumPy's default sort promises no order among equal distances; here they keep
  the order of their positions, which is one of the orders NumPy may give (and the one
  its insertion sort gives on two elements). \<open>argsort_order\<close> says what every order
  NumPy may give satisfies: it lists each position once, by ascending distance.
\<close>

definition argsort :: "real list \<Rightarrow> nat list" where
  "argsort distances = sort_key (\<lambda>i. distances ! i) [0..<length distances]"

definition argsort_order :: "real list \<Rightarrow> nat list \<Rightarrow> bool" where
  "argsort_order distances sorted_idxs \<longleftrightarrow>
     distinct sorted_idxs \<and> set sorted_idxs = {0..<length distances} \<and>
     sorted (map (\<lambda>i. distances ! i) sorted_idxs)"

definition center_distances :: "center \<Rightarrow> center list \<Rightarrow> real list" where
  \<comment> \<open>Line 34, with \<open>(xx, zz)\<close> the focal center.\<close>
  "center_distances c centers =
     map (\<lambda>ci. sqrt ((fst c - fst ci)\<^sup>2 + (snd c - snd ci)\<^sup>2)) centers"

definition close_indices :: "real list \<Rightarrow> real \<Rightarrow> nat list" where
  \<comment> \<open>Lines 35 and 36: \<open>sorted_idxs[1:]\<close> filtered by the distance threshold.\<close>
  "close_indices distances threshold_dist =
     filter (\<lambda>idx_t. distances ! idx_t \<le> threshold_dist) (tl (argsort distances))"

fun deterministic_loop ::
  "int \<Rightarrow> center list \<Rightarrow> real list \<Rightarrow> real list \<Rightarrow> bool \<Rightarrow> nat list \<Rightarrow> error + bool" where
  "deterministic_loop idx centers angles radii social_distance [] = Inr False"
| "deterministic_loop idx centers angles radii social_distance (idx_t # indices) =
     (case check_f_formations idx (int idx_t) centers angles radii social_distance of
        Inl e \<Rightarrow> Inl e
      | Inr b \<Rightarrow>
          if b then Inr True
          else deterministic_loop idx centers angles radii social_distance indices)"

text \<open>
  The probabilistic path, lines 48 to 72. \<open>torch.tensor(None)\<close> and \<open>torch.cat\<close> of
  two columns of different lengths raise a \<open>RuntimeError\<close>. \<open>math.atan2\<close> is given on
  the reals by its usual cases (there is no negative zero).

  \<open>torch.tensor\<close> of a list of Python floats is a tensor of \<open>float32\<close>, and an
  operation between such a tensor and a Python float converts the float to \<open>float32\<close>
  and rounds its result to \<open>float32\<close>. \<open>float32 x\<close> is the binary32 number nearest
  to \<open>x\<close>, ties to the even significand: 24 significant bits, the exponent not below
  \<open>-126\<close>. Beyond the largest binary32 number the code has an infinity, which is
  outside the model. The tester then receives the rounded coordinates of the two people;
  its own arithmetic on them is exact here, as the arithmetic on floats is everywhere in
  the model.
\<close>

definition round_half_even :: "real \<Rightarrow> int" where
  "round_half_even y =
     (let f = \<lfloor>y\<rfloor> in
      if y - of_int f < 1 / 2 then f
      else if 1 / 2 < y - of_int f then f + 1
      else if even f then f else f + 1)"

definition float32 :: "real \<Rightarrow> real" where
  "float32 x =
     (if x = 0 then 0
      else (let e = max \<lfloor>log 2 \<bar>x\<bar>\<rfloor> (- 126);
                ulp = 2 powr (of_int e - 23)
            in ulp * of_int (round_half_even (x / ulp))))"

definition atan2 :: "real \<Rightarrow> real \<Rightarrow> real" where
  "atan2 y x =
     (if 0 < x then arctan (y / x)
      else if x < 0 then (if 0 \<le> y then arctan (y / x) + pi else arctan (y / x) - pi)
      else if 0 < y then pi / 2
      else if y < 0 then - pi / 2
      else 0)"

text \<open>
  Modelled from the spec: \<open>laplace_sampling\<close> of \<open>monstereo/network/process.py\<close>, which
  is not among the sources. The spec has it draw, for every sample and every person, from
  a Laplace distribution of location \<open>dds[i]\<close> and scale \<open>stds[i]\<close>; such a draw is the
  location plus the scale times a draw of the standard Laplace distribution, and the
  standard draws are the argument \<open>noise\<close>. The result has one row per sample, as the
  indexing \<open>samples_d[s_d, el]\<close> of line 62 reads it.
\<close>

definition laplace_sampling :: "(real \<times> real) list \<Rightarrow> nat \<Rightarrow> (nat \<Rightarrow> nat \<Rightarrow> real) \<Rightarrow> real list list" where
  "laplace_sampling laplace_d n_samples noise =
     map (\<lambda>s. map (\<lambda>(i, (mu, bi)). mu + bi * noise s i) (enumerate 0 laplace_d))
       [0..<n_samples]"

definition zero_noise :: "nat \<Rightarrow> nat \<Rightarrow> real" where
  \<comment> \<open>Every standard draw is 0.\<close>
  "zero_noise s i = 0"

fun perturb :: "real list \<Rightarrow> real list \<Rightarrow> center list \<Rightarrow> int list \<Rightarrow> error + center list" where
  \<comment> \<open>Lines 61 to 67, on the copy \<open>new_centers\<close>; \<open>dds\<close> is the tensor of line 50 and
      \<open>sample\<close> the row \<open>samples_d[s_d]\<close>. \<open>delta_d\<close>, \<open>delta_x\<close> and \<open>delta_z\<close> are
      tensors, and \<open>+=\<close> leaves a tensor in place of each coordinate.\<close>
  "perturb dds sample new_centers [] = Inr new_centers"
| "perturb dds sample new_centers (el # els) =
     (case py_index dds el of
        Inl e \<Rightarrow> Inl e
      | Inr d \<Rightarrow>
          (case py_index sample el of
             Inl e \<Rightarrow> Inl e
           | Inr sd \<Rightarrow>
               (case py_index new_centers el of
                  Inl e \<Rightarrow> Inl e
                | Inr c \<Rightarrow>
                    (let delta_d = float32 (d - sd);
                         theta = atan2 (snd c) (fst c);
                         delta_x = float32 (delta_d * float32 (cos theta));
                         delta_z = float32 (delta_d * float32 (sin theta))
                     in perturb dds sample
                          (py_setitem new_centers el
                             (float32 (float32 (fst c) + delta_x),
                              float32 (float32 (snd c) + delta_z))) els))))"

fun sample_loop ::
  "int \<Rightarrow> int \<Rightarrow> center list \<Rightarrow> real list \<Rightarrow> real list \<Rightarrow> real list list \<Rightarrow> real list \<Rightarrow> bool
     \<Rightarrow> nat list \<Rightarrow> error + bool list" where
  \<comment> \<open>Lines 59 to 70: the list \<open>f_forms\<close>, one entry per sample.\<close>
  "sample_loop idx idx_t centers angles dds samples_d radii social_distance [] = Inr []"
| "sample_loop idx idx_t centers angles dds samples_d radii social_distance (s_d # rest) =
     (case py_index samples_d (int s_d) of
        Inl e \<Rightarrow> Inl e
      | Inr sample \<Rightarrow>
          (case perturb dds sample centers [idx, idx_t] of
             Inl e \<Rightarrow> Inl e
           | Inr new_centers \<Rightarrow>
               (case check_f_formations idx idx_t new_centers angles radii social_distance of
                  Inl e \<Rightarrow> Inl e
                | Inr b \<Rightarrow>
                    (case sample_loop idx idx_t centers angles dds samples_d radii
                            social_distance rest of
                       Inl e \<Rightarrow> Inl e
                     | Inr f_forms \<Rightarrow> Inr (b # f_forms)))))"

fun probabilistic_loop ::
  "int \<Rightarrow> center list \<Rightarrow> real list \<Rightarrow> real list \<Rightarrow> real list list \<Rightarrow> bool \<Rightarrow> int \<Rightarrow> real
     \<Rightarrow> real list \<Rightarrow> nat list \<Rightarrow> error + bool" where
  "probabilistic_loop idx centers angles dds samples_d social_distance n_samples
     threshold_prob radii [] = Inr False"
| "probabilistic_loop idx centers angles dds samples_d social_distance n_samples
     threshold_prob radii (idx_t # indices) =
     (case sample_loop idx (int idx_t) centers angles dds samples_d radii social_distance
             [0..<nat n_samples] of
        Inl e \<Rightarrow> Inl e
      | Inr f_forms \<Rightarrow>
          if sum_list (map of_bool f_forms) / real_of_int n_samples \<ge> threshold_prob
          then Inr True
          else probabilistic_loop idx centers angles dds samples_d social_distance n_samples
                 threshold_prob radii indices)"

text \<open>
  \<open>social_interactions\<close>, lines 25 to 73. The arguments come in the order of the source;
  \<open>dds\<close> and \<open>stds\<close> may be \<open>None\<close>; \<open>dds_t\<close> and \<open>stds_t\<close> are the tensors that
  lines 50 and 51 put in their place. The last argument is the noise that
  \<open>laplace_sampling\<close> draws.
\<close>

definition social_interactions ::
  "int \<Rightarrow> center list \<Rightarrow> real list \<Rightarrow> real list option \<Rightarrow> real list option \<Rightarrow> bool \<Rightarrow> int
     \<Rightarrow> real \<Rightarrow> real \<Rightarrow> real list \<Rightarrow> (nat \<Rightarrow> nat \<Rightarrow> real) \<Rightarrow> error + bool" where
  "social_interactions idx centers angles dds stds social_distance n_samples threshold_prob
     threshold_dist radii noise =
     (case py_index centers idx of
        Inl e \<Rightarrow> Inl e
      | Inr c \<Rightarrow>
          (let distances = center_distances c centers;
               indices = close_indices distances threshold_dist
           in if n_samples < 2
              then deterministic_loop idx centers angles radii social_distance indices
              else
                (case dds of
                   None \<Rightarrow> Inl RuntimeError
                 | Some dds \<Rightarrow>
                     (case stds of
                        None \<Rightarrow> Inl RuntimeError
                      | Some stds \<Rightarrow>
                          if length dds \<noteq> length stds then Inl RuntimeError
                          else
                            (let dds_t = map float32 dds;
                                 stds_t = map float32 stds;
                                 laplace_d = zip dds_t stds_t;
                                 samples_d = laplace_sampling laplace_d (nat n_samples) noise
                             in probabilistic_loop idx centers angles dds_t samples_d
                                  social_distance n_samples threshold_prob radii indices)))))"


definition binary32_centers :: "center list \<Rightarrow> bool" where
  "binary32_centers centers \<longleftrightarrow>
     (\<forall>c\<in>set centers. float32 (fst c) = fst c \<and> float32 (snd c) = snd c)"

section \<open>The conditions of the tester in the words of the specification\<close>

text \<open>
  Section 4.2 of the specification, steps 2 to 6: each person is projected along the
  facing direction by \<open>r\<close>, the O-space center is the midpoint of the two projections,
  the orientation condition compares \<open>d_new\<close> with the distances of the two raw centers
  to it, and the intrusion condition has no third person (a position of the list other
  than \<open>idx\<close> and \<open>idx_t\<close>) within distance \<open>r\<close> of it. With no third person the
  intrusion condition holds, whatever the radius.
\<close>

definition facing_point :: "center \<Rightarrow> real \<Rightarrow> real \<Rightarrow> center" where
  "facing_point x theta r = (fst x + r * cos theta, snd x + r * (- sin theta))"

definition o_space_center :: "center \<Rightarrow> center \<Rightarrow> real \<Rightarrow> real \<Rightarrow> real \<Rightarrow> center" where
  "o_space_center x_0 x_1 theta0 theta1 r =
     (let mu_0 = facing_point x_0 theta0 r; mu_1 = facing_point x_1 theta1 r
      in ((fst mu_0 + fst mu_1) / 2, (snd mu_0 + snd mu_1) / 2))"

definition orientation_condition ::
  "center \<Rightarrow> center \<Rightarrow> real \<Rightarrow> real \<Rightarrow> bool \<Rightarrow> real \<Rightarrow> bool" where
  "orientation_condition x_0 x_1 theta0 theta1 social_distance r =
     (let mu_0 = facing_point x_0 theta0 r;
          mu_1 = facing_point x_1 theta1 r;
          o_c = o_space_center x_0 x_1 theta0 theta1 r;
          d_new = (if social_distance then norm2 (vsub mu_0 mu_1) / 2
                   else norm2 (vsub mu_0 mu_1))
      in d_new \<le> min (norm2 (vsub x_0 o_c)) (norm2 (vsub x_1 o_c)))"

definition intrusion_condition :: "int \<Rightarrow> int \<Rightarrow> center list \<Rightarrow> center \<Rightarrow> real \<Rightarrow> bool" where
  "intrusion_condition idx idx_t centers o_c r =
     (\<forall>l < length centers.
        int l \<noteq> idx \<and> int l \<noteq> idx_t \<longrightarrow> r < norm2 (vsub (centers ! l) o_c))"

definition planar_distance :: "center \<Rightarrow> center \<Rightarrow> real" where
  \<comment> \<open>The planar Euclidean distance between two centers.\<close>
  "planar_distance a b = norm2 (vsub a b)"

section \<open>The evaluator on a store\<close>

text \<open>
  Line 219 builds \<open>centers\<close> as a list of two-element lists, and lines 66 and 67 assign
  into the inner lists of the copy. Whether that copy shares its inner lists with the
  caller's \<open>centers\<close> decides what the caller sees afterwards, so this version of the
  evaluator runs on a store: an object is a list of floats or a list of references, an
  address is a position in the store, and allocation appends. \<open>centers\<close> is the address
  of a list of references to lists of floats and \<open>angles\<close> the address of a list of
  floats. An address that holds no object of the expected kind is a \<open>TypeError\<close>.
\<close>

type_synonym addr = nat

datatype pyobj = Floats "real list" | Refs "addr list"

type_synonym heap = "pyobj list"

definition heap_floats :: "heap \<Rightarrow> addr \<Rightarrow> error + real list" where
  "heap_floats h a =
     (if a < length h then (case h ! a of Floats fs \<Rightarrow> Inr fs | Refs _ \<Rightarrow> Inl TypeError)
      else Inl TypeError)"

definition heap_refs :: "heap \<Rightarrow> addr \<Rightarrow> error + addr list" where
  "heap_refs h a =
     (if a < length h then (case h ! a of Refs rs \<Rightarrow> Inr rs | Floats _ \<Rightarrow> Inl TypeError)
      else Inl TypeError)"

definition load_center :: "heap \<Rightarrow> addr \<Rightarrow> error + center" where
  \<comment> \<open>The pair \<open>(c[0], c[1])\<close> of the inner list \<open>c\<close> at an address.\<close>
  "load_center h a =
     (case heap_floats h a of
        Inl e \<Rightarrow> Inl e
      | Inr fs \<Rightarrow>
          (case py_index fs 0 of
             Inl e \<Rightarrow> Inl e
           | Inr x \<Rightarrow> (case py_index fs 1 of Inl e \<Rightarrow> Inl e | Inr z \<Rightarrow> Inr (x, z))))"

fun load_all :: "heap \<Rightarrow> addr list \<Rightarrow> error + center list" where
  "load_all h [] = Inr []"
| "load_all h (a # as) =
     (case load_center h a of
        Inl e \<Rightarrow> Inl e
      | Inr c \<Rightarrow> (case load_all h as of Inl e \<Rightarrow> Inl e | Inr cs \<Rightarrow> Inr (c # cs)))"

definition load_centers :: "heap \<Rightarrow> addr \<Rightarrow> error + center list" where
  \<comment> \<open>The positions that a list of centers holds at the moment.\<close>
  "load_centers h centers =
     (case heap_refs h centers of Inl e \<Rightarrow> Inl e | Inr rs \<Rightarrow> load_all h rs)"

text \<open>
  \<open>copy.deepcopy\<close> of a list of lists of floats. The new outer list is allocated first;
  every inner list is copied to a fresh address once, the memo mapping the original
  to its copy, so two entries that were the same object are the same object in the copy.
  Floats are immutable and are not copied.
\<close>

fun deepcopy_items ::
  "heap \<Rightarrow> (addr \<times> addr) list \<Rightarrow> addr list \<Rightarrow> error + heap \<times> addr list" where
  "deepcopy_items h memo [] = Inr (h, [])"
| "deepcopy_items h memo (a # as) =
     (case map_of memo a of
        Some a' \<Rightarrow>
          (case deepcopy_items h memo as of
             Inl e \<Rightarrow> Inl e
           | Inr (h', bs) \<Rightarrow> Inr (h', a' # bs))
      | None \<Rightarrow>
          (case heap_floats h a of
             Inl e \<Rightarrow> Inl e
           | Inr fs \<Rightarrow>
               (case deepcopy_items (h @ [Floats fs]) ((a, length h) # memo) as of
                  Inl e \<Rightarrow> Inl e
                | Inr (h', bs) \<Rightarrow> Inr (h', length h # bs))))"

definition deepcopy :: "heap \<Rightarrow> addr \<Rightarrow> error + heap \<times> addr" where
  "deepcopy h centers =
     (case heap_refs h centers of
        Inl e \<Rightarrow> Inl e
      | Inr rs \<Rightarrow>
          (let new_centers = length h in
           case deepcopy_items (h @ [Refs []]) [] rs of
             Inl e \<Rightarrow> Inl e
           | Inr (h', bs) \<Rightarrow> Inr (h'[new_centers := Refs bs], new_centers)))"

fun perturb_st ::
  "heap \<Rightarrow> real list \<Rightarrow> real list \<Rightarrow> addr \<Rightarrow> int list \<Rightarrow> error option \<times> heap" where
  \<comment> \<open>Lines 61 to 67 on the store; the result is the exception raised, if any, and the
      store as the loop leaves it.\<close>
  "perturb_st h dds sample new_centers [] = (None, h)"
| "perturb_st h dds sample new_centers (el # els) =
     (case py_index dds el of
        Inl e \<Rightarrow> (Some e, h)
      | Inr d \<Rightarrow>
          (case py_index sample el of
             Inl e \<Rightarrow> (Some e, h)
           | Inr sd \<Rightarrow>
               (case heap_refs h new_centers of
                  Inl e \<Rightarrow> (Some e, h)
                | Inr rs \<Rightarrow>
                    (case py_index rs el of
                       Inl e \<Rightarrow> (Some e, h)
                     | Inr a \<Rightarrow>
                         (case load_center h a of
                            Inl e \<Rightarrow> (Some e, h)
                          | Inr c \<Rightarrow>
                              (let delta_d = float32 (d - sd);
                                   theta = atan2 (snd c) (fst c);
                                   delta_x = float32 (delta_d * float32 (cos theta));
                                   delta_z = float32 (delta_d * float32 (sin theta));
                                   h1 = (case h ! a of
                                           Floats fs \<Rightarrow>
                                             h[a := Floats
                                                 (fs[0 := float32 (float32 (fs ! 0) + delta_x)])]
                                         | Refs _ \<Rightarrow> h);
                                   h2 = (case h1 ! a of
                                           Floats fs \<Rightarrow>
                                             h1[a := Floats
                                                 (fs[1 := float32 (float32 (fs ! 1) + delta_z)])]
                                         | Refs _ \<Rightarrow> h1)
                               in perturb_st h2 dds sample new_centers els))))))"

fun sample_loop_st ::
  "heap \<Rightarrow> int \<Rightarrow> int \<Rightarrow> addr \<Rightarrow> real list \<Rightarrow> real list \<Rightarrow> real list list \<Rightarrow> real list
     \<Rightarrow> bool \<Rightarrow> nat list \<Rightarrow> (error + bool list) \<times> heap" where
  "sample_loop_st h idx idx_t centers angles dds samples_d radii social_distance [] =
     (Inr [], h)"
| "sample_loop_st h idx idx_t centers angles dds samples_d radii social_distance (s_d # rest) =
     (case deepcopy h centers of
        Inl e \<Rightarrow> (Inl e, h)
      | Inr (h1, new_centers) \<Rightarrow>
          (case py_index samples_d (int s_d) of
             Inl e \<Rightarrow> (Inl e, h1)
           | Inr sample \<Rightarrow>
               (case perturb_st h1 dds sample new_centers [idx, idx_t] of
                  (Some e, h2) \<Rightarrow> (Inl e, h2)
                | (None, h2) \<Rightarrow>
                    (case load_centers h2 new_centers of
                       Inl e \<Rightarrow> (Inl e, h2)
                     | Inr cs \<Rightarrow>
                         (case check_f_formations idx idx_t cs angles radii social_distance of
                            Inl e \<Rightarrow> (Inl e, h2)
                          | Inr b \<Rightarrow>
                              (case sample_loop_st h2 idx idx_t centers angles dds samples_d
                                      radii social_distance rest of
                                 (Inl e, h3) \<Rightarrow> (Inl e, h3)
                               | (Inr f_forms, h3) \<Rightarrow> (Inr (b # f_forms), h3)))))))"

fun probabilistic_loop_st ::
  "heap \<Rightarrow> int \<Rightarrow> addr \<Rightarrow> real list \<Rightarrow> real list \<Rightarrow> real list list \<Rightarrow> bool \<Rightarrow> int \<Rightarrow> real
     \<Rightarrow> real list \<Rightarrow> nat list \<Rightarrow> (error + bool) \<times> heap" where
  "probabilistic_loop_st h idx centers angles dds samples_d social_distance n_samples
     threshold_prob radii [] = (Inr False, h)"
| "probabilistic_loop_st h idx centers angles dds samples_d social_distance n_samples
     threshold_prob radii (idx_t # indices) =
     (case sample_loop_st h idx (int idx_t) centers angles dds samples_d radii social_distance
             [0..<nat n_samples] of
        (Inl e, h1) \<Rightarrow> (Inl e, h1)
      | (Inr f_forms, h1) \<Rightarrow>
          if sum_list (map of_bool f_forms) / real_of_int n_samples \<ge> threshold_prob
          then (Inr True, h1)
          else probabilistic_loop_st h1 idx centers angles dds samples_d social_distance
                 n_samples threshold_prob radii indices)"

text \<open>
  Reading does not change the store, so the parts of \<open>social_interactions\<close> that only
  read (the distances, the candidates, the deterministic loop, each call of the tester)
  are the functions above applied to the positions and angles loaded from the store.
\<close>

definition social_interactions_st ::
  "heap \<Rightarrow> int \<Rightarrow> addr \<Rightarrow> addr \<Rightarrow> real list option \<Rightarrow> real list option \<Rightarrow> bool \<Rightarrow> int
     \<Rightarrow> real \<Rightarrow> real \<Rightarrow> real list \<Rightarrow> (nat \<Rightarrow> nat \<Rightarrow> real) \<Rightarrow> (error + bool) \<times> heap" where
  "social_interactions_st h idx centers angles dds stds social_distance n_samples
     threshold_prob threshold_dist radii noise =
     (case load_centers h centers of
        Inl e \<Rightarrow> (Inl e, h)
      | Inr cs \<Rightarrow>
          (case heap_floats h angles of
             Inl e \<Rightarrow> (Inl e, h)
           | Inr thetas \<Rightarrow>
               (case py_index cs idx of
                  Inl e \<Rightarrow> (Inl e, h)
                | Inr c \<Rightarrow>
                    (let distances = center_distances c cs;
                         indices = close_indices distances threshold_dist
                     in if n_samples < 2
                        then (deterministic_loop idx cs thetas radii social_distance indices, h)
                        else
                          (case dds of
                             None \<Rightarrow> (Inl RuntimeError, h)
                           | Some dds \<Rightarrow>
                               (case stds of
                                  None \<Rightarrow> (Inl RuntimeError, h)
                                | Some stds \<Rightarrow>
                                    if length dds \<noteq> length stds then (Inl RuntimeError, h)
                                    else
                                      (let dds_t = map float32 dds;
                                           stds_t = map float32 stds;
                                           laplace_d = zip dds_t stds_t;
                                           samples_d =
                                             laplace_sampling laplace_d (nat n_samples) noise
                                       in probabilistic_loop_st h idx centers thetas dds_t
                                            samples_d social_distance n_samples threshold_prob
                                            radii indices)))))))"

text \<open>
  \<open>heap_extends h h'\<close>: every object of \<open>h\<close> is in \<open>h'\<close> at its address, unchanged;
  \<open>h'\<close> may hold further objects.
\<close>

definition heap_extends :: "heap \<Rightarrow> heap \<Rightarrow> bool" where
  "heap_extends h h' \<longleftrightarrow> length h \<le> length h' \<and> (\<forall>a < length h. h' ! a = h ! a)"

section \<open>Indexing and the radius loop\<close>

lemma py_index_valid:
  "0 \<le> i \<Longrightarrow> i < int (length xs) \<Longrightarrow> py_index xs i = Inr (xs ! nat i)"
  by (simp add: py_index_def)

lemma set_other_centers:
  "set (other_centers idx idx_t centers) =
     {centers ! l | l. l < length centers \<and> int l \<noteq> idx \<and> int l \<noteq> idx_t}"
proof -
  have "set (enumerate 0 centers) = {(l, centers ! l) | l. l < length centers}"
    by (auto simp: in_set_enumerate_eq)
  then show ?thesis
    unfolding other_centers_def by (auto simp: image_iff)
qed

lemma radii_loop_exists:
  "py_index centers idx = Inr x_0 \<Longrightarrow> py_index centers idx_t = Inr x_1 \<Longrightarrow>
   radii_loop idx idx_t centers theta0 theta1 others social_distance radii =
     Inr (\<exists>r\<in>set radii. radius_test x_0 x_1 theta0 theta1 others social_distance r)"
  by (induction radii) auto

lemma radii_loop_True:
  "radii_loop idx idx_t centers theta0 theta1 others social_distance radii = Inr True \<Longrightarrow>
   \<exists>x_0 x_1. py_index centers idx = Inr x_0 \<and> py_index centers idx_t = Inr x_1"
  by (induction radii) (auto split: sum.splits)

lemma radius_test_conditions:
  "radius_test x_0 x_1 theta0 theta1 others social_distance r \<longleftrightarrow>
     orientation_condition x_0 x_1 theta0 theta1 social_distance r \<and>
     (if others = [] then r < 100
      else (\<forall>c\<in>set others. r < norm2 (vsub c (o_space_center x_0 x_1 theta0 theta1 r))))"
proof (cases "others = []")
  case True
  then show ?thesis
    by (simp add: radius_test_def orientation_condition_def
        o_space_center_def facing_point_def Let_def)
next
  case False
  then have "Min (set (map f others)) > r \<longleftrightarrow> (\<forall>c\<in>set others. r < f c)" for f :: "center \<Rightarrow> real"
    by (simp add: Min_gr_iff)
  with False show ?thesis
    by (simp add: radius_test_def orientation_condition_def
        o_space_center_def facing_point_def Let_def)
qed

lemma intrusion_condition_others:
  "intrusion_condition idx idx_t centers o_c r \<longleftrightarrow>
     (\<forall>c\<in>set (other_centers idx idx_t centers). r < norm2 (vsub c o_c))"
proof -
  have "(\<forall>c\<in>set (other_centers idx idx_t centers). P c) \<longleftrightarrow>
        (\<forall>l < length centers. int l \<noteq> idx \<and> int l \<noteq> idx_t \<longrightarrow> P (centers ! l))"
    for P :: "center \<Rightarrow> bool"
    unfolding set_other_centers by blast
  then show ?thesis by (simp add: intrusion_condition_def)
qed

lemma check_f_formations_valid:
  assumes "0 \<le> idx" "idx < int (length centers)" "0 \<le> idx_t" "idx_t < int (length centers)"
    and "length angles = length centers"
  shows "check_f_formations idx idx_t centers angles radii social_distance =
     Inr (\<exists>r\<in>set radii. radius_test (centers ! nat idx) (centers ! nat idx_t)
            (angles ! nat idx) (angles ! nat idx_t) (other_centers idx idx_t centers)
            social_distance r)"
  using assms
  by (simp add: check_f_formations_def py_index_valid radii_loop_exists)

lemma check_f_formations_True_iff:
  "check_f_formations idx idx_t centers angles radii social_distance = Inr True \<longleftrightarrow>
     (\<exists>x_0 x_1 theta0 theta1.
        py_index centers idx = Inr x_0 \<and> py_index centers idx_t = Inr x_1 \<and>
        py_index angles idx = Inr theta0 \<and> py_index angles idx_t = Inr theta1 \<and>
        (\<exists>r\<in>set radii. radius_test x_0 x_1 theta0 theta1 (other_centers idx idx_t centers)
                  social_distance r))"
  (is "?l \<longleftrightarrow> ?r")
proof
  assume ?l
  then obtain theta0 theta1 where th: "py_index angles idx = Inr theta0"
      "py_index angles idx_t = Inr theta1"
    and loop: "radii_loop idx idx_t centers theta0 theta1 (other_centers idx idx_t centers)
                 social_distance radii = Inr True"
    by (auto simp: check_f_formations_def split: sum.splits)
  from radii_loop_True [OF loop] obtain x_0 x_1
    where x: "py_index centers idx = Inr x_0" "py_index centers idx_t = Inr x_1" by blast
  from loop radii_loop_exists [OF x] th x show ?r by auto
next
  assume ?r
  then show ?l
    by (auto simp: check_f_formations_def radii_loop_exists)
qed

lemma other_centers_example: "other_centers 0 1 [(0, 0), (2, 0), (1, 5)] = [(1, 5)]"
  by (simp add: other_centers_def enumerate_eq_zip upt_rec)

section \<open>Claims about the tester\<close>

text \<open>
  The tester and the existential of section 4.2. With indices in range and angles as
  long as the centers, the tester returns true exactly when some radius of \<open>radii\<close>
  satisfies the orientation condition and the intrusion condition, provided a third
  person is present or every radius is below 100.
\<close>

lemma tester_exists_radius:
  assumes "0 \<le> idx" "idx < int (length centers)" "0 \<le> idx_t" "idx_t < int (length centers)"
    and "length angles = length centers"
    and "other_centers idx idx_t centers \<noteq> [] \<or> (\<forall>r\<in>set radii. r < 100)"
  shows "check_f_formations idx idx_t centers angles radii social_distance =
     Inr (\<exists>r\<in>set radii.
            orientation_condition (centers ! nat idx) (centers ! nat idx_t)
              (angles ! nat idx) (angles ! nat idx_t) social_distance r \<and>
            intrusion_condition idx idx_t centers
              (o_space_center (centers ! nat idx) (centers ! nat idx_t)
                 (angles ! nat idx) (angles ! nat idx_t) r) r)"
proof (cases "other_centers idx idx_t centers = []")
  case True
  with assms(6) have "\<forall>r\<in>set radii. r < 100" by simp
  with True show ?thesis
    by (auto simp: check_f_formations_valid [OF assms(1-5)] radius_test_conditions
        intrusion_condition_others)
next
  case False
  then show ?thesis
    by (simp add: check_f_formations_valid [OF assms(1-5)] radius_test_conditions
        intrusion_condition_others)
qed

text \<open>
  Claim C1. The tester should return true exactly when some radius satisfies the
  orientation condition and the intrusion condition. It does not for two people alone
  and a radius of 100 or more: 300 apart and facing each other, they satisfy the
  orientation condition at radius 150 (with \<open>social_distance\<close>), no third person is
  within 150 of the O-space center, there being none, and the tester returns false. The
  distance 100 that line 107 puts in place of the missing distances is not above the
  radius.
\<close>

theorem exists_radius_fails_beyond_100:
  "orientation_condition (0, 0) (300, 0) 0 pi True 150
   \<and> intrusion_condition 0 1 [(0, 0), (300, 0)]
       (o_space_center (0, 0) (300, 0) 0 pi 150) 150
   \<and> check_f_formations 0 1 [(0, 0), (300, 0)] [0, pi] [150] True = Inr False"
proof -
  have o: "other_centers 0 1 [(0, 0), (300, 0)] = []"
    by (simp add: other_centers_def enumerate_eq_zip upt_rec)
  have "orientation_condition (0, 0) (300, 0) 0 pi True 150"
    by (simp add: orientation_condition_def o_space_center_def facing_point_def
        norm2_def vsub_def)
  moreover have "intrusion_condition 0 1 [(0, 0), (300, 0)]
       (o_space_center (0, 0) (300, 0) 0 pi 150) 150"
    by (simp add: intrusion_condition_others o)
  moreover have "check_f_formations 0 1 [(0, 0), (300, 0)] [0, pi] [150] True = Inr False"
    by (simp add: check_f_formations_valid radius_test_conditions o)
  ultimately show ?thesis by simp
qed

theorem exists_radius_fails_beyond_100_witness:
  "orientation_condition (0, 0) (300, 0) 0 pi True 150
   \<and> check_f_formations 0 1 [(0, 0), (300, 0)] [0, pi] [150] True = Inr False"
  using exists_radius_fails_beyond_100 by simp

text \<open>
  Claim C6. When \<open>check_f_formations\<close> returns true on the radii \<open>R\<close>, it returns true
  on every sequence of radii that contains each element of \<open>R\<close>, in any order and with
  any further radii: adding candidate radii never turns true into false.
\<close>

theorem check_f_formations_radii_superset:
  assumes "check_f_formations idx idx_t centers angles R social_distance = Inr True"
    and "set R \<subseteq> set R'"
  shows "check_f_formations idx idx_t centers angles R' social_distance = Inr True"
  using assms unfolding check_f_formations_True_iff by blast

theorem check_f_formations_radii_superset_witness:
  "check_f_formations 0 1 [(0, 0), (2, 0), (1, 5)] [0, pi, 0] [7, 1, 3] False = Inr True"
proof -
  have "check_f_formations 0 1 [(0, 0), (2, 0), (1, 5)] [0, pi, 0] [1] False = Inr True"
    by (simp add: check_f_formations_valid radius_test_conditions other_centers_example
        orientation_condition_def
        o_space_center_def facing_point_def norm2_def vsub_def)
  moreover have "set [1 :: real] \<subseteq> set [7, 1, 3]" by simp
  ultimately show ?thesis by (rule check_f_formations_radii_superset)
qed

text \<open>
  Claim C9. The intrusion boundary is strict. When a third person (a position \<open>l\<close> other
  than \<open>idx\<close> and \<open>idx_t\<close>) lies at distance exactly \<open>r\<close> from the O-space center of
  radius \<open>r\<close>, the tester does not return true at that radius: on the radii \<open>[r]\<close>
  it returns false, and on any radii it returns what it returns with \<open>r\<close> taken out.
\<close>

theorem intrusion_boundary_strict:
  assumes "0 \<le> idx" "idx < int (length centers)" "0 \<le> idx_t" "idx_t < int (length centers)"
    and "length angles = length centers"
    and "l < length centers" "int l \<noteq> idx" "int l \<noteq> idx_t"
    and "norm2 (vsub (centers ! l)
           (o_space_center (centers ! nat idx) (centers ! nat idx_t)
              (angles ! nat idx) (angles ! nat idx_t) r)) = r"
  shows "check_f_formations idx idx_t centers angles [r] social_distance = Inr False
       \<and> check_f_formations idx idx_t centers angles radii social_distance =
         check_f_formations idx idx_t centers angles (removeAll r radii) social_distance"
proof -
  have mem: "centers ! l \<in> set (other_centers idx idx_t centers)"
    using assms(6-8) by (auto simp: set_other_centers)
  then have ne: "other_centers idx idx_t centers \<noteq> []" by auto
  have "\<not> r < norm2 (vsub (centers ! l)
           (o_space_center (centers ! nat idx) (centers ! nat idx_t)
              (angles ! nat idx) (angles ! nat idx_t) r))"
    using assms(9) by simp
  with mem have "\<not> (\<forall>c\<in>set (other_centers idx idx_t centers).
           r < norm2 (vsub c (o_space_center (centers ! nat idx) (centers ! nat idx_t)
              (angles ! nat idx) (angles ! nat idx_t) r)))"
    by blast
  with ne have no: "\<not> radius_test (centers ! nat idx) (centers ! nat idx_t)
            (angles ! nat idx) (angles ! nat idx_t) (other_centers idx idx_t centers)
            social_distance r"
    by (simp add: radius_test_conditions)
  show ?thesis
    using no by (auto simp: check_f_formations_valid [OF assms(1-5)])
qed

lemma other_centers_third: "other_centers 0 1 [(0, 0), (2, 0), (1, 1)] = [(1, 1)]"
  by (simp add: other_centers_def enumerate_eq_zip upt_rec)

theorem intrusion_boundary_strict_witness:
  "check_f_formations 0 1 [(0, 0), (2, 0), (1, 1)] [0, pi, 0] [1] False = Inr False
   \<and> check_f_formations 0 1 [(0, 0), (2, 0), (1, 1)] [0, pi, 0] [1, 1] False =
     check_f_formations 0 1 [(0, 0), (2, 0), (1, 1)] [0, pi, 0] [] False"
  using intrusion_boundary_strict
          [of 0 "[(0, 0), (2, 0), (1, 1)]" 1 "[0, pi, 0]" 2 1 False "[1, 1]"]
  by (simp add: o_space_center_def facing_point_def norm2_def vsub_def)

text \<open>
  Claim C2. With two people there is no third party, and the intrusion condition should
  never block. The code puts the distance 100 in place of the missing distances, so a
  radius of 100 or more is blocked: two people 200 apart who face each other satisfy the
  orientation condition at radius 100, nobody else is there, and the tester returns false.
\<close>

theorem two_people_radius_100:
  "orientation_condition (0, 0) (200, 0) 0 pi False 100
   \<and> other_centers 0 1 [(0, 0), (200, 0)] = []
   \<and> check_f_formations 0 1 [(0, 0), (200, 0)] [0, pi] [100] False = Inr False"
  by (simp add: check_f_formations_valid radius_test_conditions other_centers_def
      enumerate_eq_zip upt_rec orientation_condition_def
      o_space_center_def facing_point_def norm2_def vsub_def)

text \<open>Below 100 the stand-in distance does its work and the two-people case never blocks.\<close>

lemma two_people_radius_below_100:
  assumes "length centers = 2" "length angles = 2" "r \<in> set radii" "r < 100"
    and "orientation_condition (centers ! 0) (centers ! 1) (angles ! 0) (angles ! 1)
           social_distance r"
  shows "check_f_formations 0 1 centers angles radii social_distance = Inr True"
proof -
  have "other_centers 0 1 centers = []"
    using assms(1) by (auto simp: set_other_centers simp flip: set_empty)
  with assms show ?thesis
    by (auto simp: check_f_formations_valid radius_test_conditions)
qed

section \<open>Claims about the deterministic path\<close>

lemma nth_center_distances:
  "j < length centers \<Longrightarrow> center_distances c centers ! j = planar_distance c (centers ! j)"
  by (simp add: center_distances_def planar_distance_def norm2_def vsub_def)

lemma length_center_distances: "length (center_distances c centers) = length centers"
  by (simp add: center_distances_def)

lemma set_argsort: "set (argsort distances) = {0..<length distances}"
  by (simp add: argsort_def)

lemma distinct_argsort: "distinct (argsort distances)"
  by (simp add: argsort_def)

lemma length_argsort: "length (argsort distances) = length distances"
  by (simp add: argsort_def)

lemma hd_argsort_least:
  assumes "j < length distances"
  shows "distances ! hd (argsort distances) \<le> distances ! j"
proof -
  have s: "sorted (map (\<lambda>i. distances ! i) (argsort distances))"
    by (simp add: argsort_def)
  from assms have ne: "argsort distances \<noteq> []"
    using length_argsort [of distances] by auto
  from assms have "j \<in> set (argsort distances)" by (simp add: set_argsort)
  with s ne show ?thesis
    by (cases "argsort distances") auto
qed

lemma set_tl_argsort:
  "set (tl (argsort distances)) = {0..<length distances} - {hd (argsort distances)}"
proof (cases "argsort distances")
  case Nil
  then show ?thesis using set_argsort [of distances] by simp
next
  case (Cons a as)
  with distinct_argsort [of distances] set_argsort [of distances] show ?thesis by auto
qed

lemma set_close_indices:
  "set (close_indices distances threshold_dist) =
     {j. j < length distances \<and> j \<noteq> hd (argsort distances) \<and> distances ! j \<le> threshold_dist}"
  by (auto simp: close_indices_def set_tl_argsort)

lemma deterministic_loop_exists:
  assumes "0 \<le> idx" "idx < int (length centers)" "length angles = length centers"
    and "\<forall>j\<in>set indices. j < length centers"
  shows "deterministic_loop idx centers angles radii social_distance indices =
     Inr (\<exists>j\<in>set indices.
            check_f_formations idx (int j) centers angles radii social_distance = Inr True)"
  using assms(4)
proof (induction indices)
  case Nil
  then show ?case by simp
next
  case (Cons j js)
  then have "j < length centers" by simp
  then obtain b where b: "check_f_formations idx (int j) centers angles radii social_distance = Inr b"
    using check_f_formations_valid [OF assms(1,2) _ _ assms(3), of "int j"] by simp
  with Cons show ?case by (cases b) auto
qed

lemma social_interactions_deterministic:
  assumes "0 \<le> idx" "idx < int (length centers)" "length angles = length centers"
    and "n_samples < 2"
  shows "social_interactions idx centers angles dds stds social_distance n_samples
           threshold_prob threshold_dist radii noise =
     Inr (\<exists>j\<in>set (close_indices (center_distances (centers ! nat idx) centers) threshold_dist).
            check_f_formations idx (int j) centers angles radii social_distance = Inr True)"
proof -
  have "\<forall>j\<in>set (close_indices (center_distances (centers ! nat idx) centers) threshold_dist).
          j < length centers"
    by (simp add: set_close_indices length_center_distances)
  from deterministic_loop_exists [OF assms(1-3) this] assms show ?thesis
    by (simp add: social_interactions_def py_index_valid Let_def)
qed


lemma center_distances_self:
  assumes "0 \<le> idx" "idx < int (length centers)"
  shows "center_distances (centers ! nat idx) centers ! nat idx = 0"
  using assms by (simp add: nth_center_distances planar_distance_def norm2_def vsub_def)

lemma center_distances_nonneg:
  "j < length centers \<Longrightarrow> 0 \<le> center_distances c centers ! j"
  by (simp add: nth_center_distances planar_distance_def norm2_def)

lemma hd_argsort_center_distances:
  assumes "0 \<le> idx" "idx < int (length centers)"
  shows "center_distances (centers ! nat idx) centers
           ! hd (argsort (center_distances (centers ! nat idx) centers)) = 0"
proof -
  let ?ds = "center_distances (centers ! nat idx) centers"
  from assms have n: "nat idx < length ?ds" by (simp add: length_center_distances)
  have "?ds ! hd (argsort ?ds) \<le> ?ds ! nat idx" by (rule hd_argsort_least [OF n])
  then have le: "?ds ! hd (argsort ?ds) \<le> 0" by (simp add: center_distances_self [OF assms])
  from n have "argsort ?ds \<noteq> []" using length_argsort [of ?ds] by auto
  then have "hd (argsort ?ds) \<in> set (argsort ?ds)" by simp
  then have "hd (argsort ?ds) < length centers"
    by (simp add: set_argsort length_center_distances)
  then have "0 \<le> ?ds ! hd (argsort ?ds)" by (rule center_distances_nonneg)
  with le show ?thesis by simp
qed









text \<open>
  Claim C3. The candidate set should never contain \<open>idx\<close>. The code drops whatever
  comes first in the order of distances, and that is another person when one stands at
  the focal person's exact position earlier in the list: for two people at the same place
  and \<open>idx = 1\<close> the candidate set is \<open>[1]\<close>, the focal person itself. The other
  person is then never tested as a partner, and the verdicts of the two differ.
\<close>

theorem twin_is_candidate:
  "close_indices (center_distances ([(0, 0), (0, 0)] ! 1) [(0, 0), (0, 0)]) 2 = [1]
   \<and> social_interactions 0 [(0, 0), (0, 0)] [0, 0] None None False 1 (1 / 4) 2 [1] zero_noise
       = Inr True
   \<and> social_interactions 1 [(0, 0), (0, 0)] [0, 0] None None False 1 (1 / 4) 2 [1] zero_noise
       = Inr False"
proof -
  have c: "close_indices (center_distances (0, 0) [(0, 0), (0, 0)]) 2 = [1]"
    by (simp add: close_indices_def center_distances_def argsort_def upt_rec)
  have o01: "other_centers 0 1 [(0, 0), (0, 0)] = []"
    and o11: "other_centers 1 1 [(0, 0), (0, 0)] = [(0, 0)]"
    by (simp_all add: other_centers_def enumerate_eq_zip upt_rec)
  have t: "check_f_formations 0 1 [(0, 0), (0, 0)] [0, 0] [1] False = Inr True"
    by (simp add: check_f_formations_valid radius_test_conditions o01
        orientation_condition_def
        o_space_center_def facing_point_def norm2_def vsub_def)
  have f: "check_f_formations 1 1 [(0, 0), (0, 0)] [0, 0] [1] False = Inr False"
    by (simp add: check_f_formations_valid radius_test_conditions o11
        orientation_condition_def
        o_space_center_def facing_point_def norm2_def vsub_def)
  show ?thesis
    by (simp add: social_interactions_deterministic c t f)
qed

text \<open>
  When nobody else stands at the focal person's exact position, the entry dropped is
  \<open>idx\<close> and the candidate set does not contain it.
\<close>

lemma focal_not_candidate:
  assumes "0 \<le> idx" "idx < int (length centers)"
    and "\<forall>j < length centers. j \<noteq> nat idx \<longrightarrow> centers ! j \<noteq> centers ! nat idx"
  shows "hd (argsort (center_distances (centers ! nat idx) centers)) = nat idx"
    and "nat idx \<notin> set (close_indices (center_distances (centers ! nat idx) centers)
                           threshold_dist)"
proof -
  let ?ds = "center_distances (centers ! nat idx) centers"
  have "hd (argsort ?ds) < length centers"
  proof -
    from assms have "argsort ?ds \<noteq> []"
      using length_argsort [of ?ds] by (auto simp: length_center_distances)
    then have "hd (argsort ?ds) \<in> set (argsort ?ds)" by simp
    then show ?thesis by (simp add: set_argsort length_center_distances)
  qed
  moreover have "centers ! j = centers ! nat idx"
    if "j < length centers" "?ds ! j = 0" for j
    using that
    by (auto simp: nth_center_distances planar_distance_def norm2_def vsub_def
        real_sqrt_eq_zero_cancel_iff sum_power2_eq_zero_iff prod_eq_iff)
  ultimately show "hd (argsort ?ds) = nat idx"
    using hd_argsort_center_distances [OF assms(1,2)] assms(3) by blast
  then show "nat idx \<notin> set (close_indices ?ds threshold_dist)"
    by (simp add: set_close_indices)
qed

text \<open>
  The order among equal distances does not matter to the boundary of the threshold: the
  two statements about the candidates hold for every order that lists the positions by
  ascending distance. Nor does it rescue the two people at one place: whichever of them
  such an order puts first, the other is its own candidate.
\<close>

lemma argsort_is_order: "argsort_order distances (argsort distances)"
  by (simp add: argsort_order_def argsort_def)

lemma threshold_boundary_any_order:
  assumes "argsort_order (center_distances (centers ! nat idx) centers) sorted_idxs"
    and "0 \<le> idx" "idx < int (length centers)" "j < length centers"
  shows "(threshold_dist < planar_distance (centers ! nat idx) (centers ! j) \<longrightarrow>
            j \<notin> set (filter (\<lambda>idx_t. center_distances (centers ! nat idx) centers ! idx_t
                                     \<le> threshold_dist) (tl sorted_idxs)))
       \<and> (planar_distance (centers ! nat idx) (centers ! j) = threshold_dist
            \<and> 0 < threshold_dist \<longrightarrow>
            j \<in> set (filter (\<lambda>idx_t. center_distances (centers ! nat idx) centers ! idx_t
                                     \<le> threshold_dist) (tl sorted_idxs)))"
proof -
  let ?ds = "center_distances (centers ! nat idx) centers"
  from assms(1) have d: "distinct sorted_idxs" and s: "set sorted_idxs = {0..<length centers}"
    and o: "sorted (map (\<lambda>i. ?ds ! i) sorted_idxs)"
    by (simp_all add: argsort_order_def length_center_distances)
  from s assms(2,3) obtain a as where p: "sorted_idxs = a # as"
    by (cases sorted_idxs) auto
  have tl: "set (tl sorted_idxs) = {0..<length centers} - {a}"
    using d s p by auto
  have "nat idx \<in> set sorted_idxs" using s assms(2,3) by simp
  with o p have "?ds ! a \<le> ?ds ! nat idx" by auto
  moreover have "a < length centers" using s p by auto
  ultimately have a0: "?ds ! a = 0"
    using center_distances_self [OF assms(2,3)]
      center_distances_nonneg [of a centers "centers ! nat idx"]
    by simp
  show ?thesis
  proof (intro conjI impI)
    assume "threshold_dist < planar_distance (centers ! nat idx) (centers ! j)"
    then show "j \<notin> set (filter (\<lambda>idx_t. ?ds ! idx_t \<le> threshold_dist) (tl sorted_idxs))"
      using assms(4) by (simp add: nth_center_distances)
  next
    assume h: "planar_distance (centers ! nat idx) (centers ! j) = threshold_dist
                 \<and> 0 < threshold_dist"
    with assms(4) a0 have "j \<noteq> a" by (auto simp: nth_center_distances)
    with h assms(4) tl
    show "j \<in> set (filter (\<lambda>idx_t. ?ds ! idx_t \<le> threshold_dist) (tl sorted_idxs))"
      by (simp add: nth_center_distances)
  qed
qed

lemma twins_any_order:
  assumes "argsort_order (center_distances (0, 0) [(0, 0), (0, 0)]) sorted_idxs"
  shows "filter (\<lambda>idx_t. center_distances (0, 0) [(0, 0), (0, 0)] ! idx_t \<le> 2)
           (tl sorted_idxs) = [0]
       \<or> filter (\<lambda>idx_t. center_distances (0, 0) [(0, 0), (0, 0)] ! idx_t \<le> 2)
           (tl sorted_idxs) = [1]"
proof -
  from assms have d: "distinct sorted_idxs"
    and s2: "set sorted_idxs = {0..<Suc (Suc 0)}"
    by (simp_all add: argsort_order_def center_distances_def)
  have "{0..<Suc (Suc 0)} = {0, 1}" by auto
  with s2 have s: "set sorted_idxs = {0, 1}" by simp
  from d have "card (set sorted_idxs) = length sorted_idxs" by (rule distinct_card)
  with s have "length sorted_idxs = 2" by simp
  then obtain a b where p: "sorted_idxs = [a, b]"
    by (auto simp: length_Suc_conv numeral_2_eq_2)
  with s have "b = 0 \<or> b = 1" by auto
  with p show ?thesis by (auto simp: center_distances_def)
qed

section \<open>Claims about the probabilistic path and about errors\<close>

lemma py_index_nat:
  "j < length xs \<Longrightarrow> py_index xs (int j) = Inr (xs ! j)"
  by (simp add: py_index_def)



lemma py_setitem_same:
  "py_index xs i = Inr x \<Longrightarrow> py_setitem xs i x = xs"
  by (auto simp: py_index_def py_setitem_def split: if_splits)


subsection \<open>Rounding to binary32\<close>

lemma floor_log2_eq:
  assumes "2 ^ n \<le> x" "x < 2 ^ Suc n"
  shows "\<lfloor>log 2 x\<rfloor> = int n"
proof -
  from assms have pos: "0 < x" by (smt (verit) zero_less_power)
  have "real n \<le> log 2 x"
    using assms(1) pos by (simp add: le_log_iff powr_realpow)
  moreover have "log 2 x < real n + 1"
    using assms(2) pos by (simp add: log_less_iff powr_realpow powr_add)
  ultimately show ?thesis by (simp add: floor_eq_iff)
qed

lemma float32_binade:
  assumes "2 ^ n \<le> \<bar>x\<bar>" "\<bar>x\<bar> < 2 ^ Suc n"
  shows "float32 x = (2 ^ n / 2 ^ 23) * of_int (round_half_even (x / (2 ^ n / 2 ^ 23)))"
proof -
  from assms have nz: "x \<noteq> 0" by (smt (verit) zero_less_power abs_zero)
  have e: "\<lfloor>log 2 \<bar>x\<bar>\<rfloor> = int n" by (rule floor_log2_eq [OF assms])
  have u: "2 powr (real_of_int (max (int n) (- 126)) - 23) = (2 :: real) ^ n / 2 ^ 23"
    by (simp add: powr_diff powr_realpow max_def)
  from nz show ?thesis
    unfolding float32_def Let_def by (simp only: e u if_False)
qed

lemma float32_0: "float32 0 = 0"
  by (simp add: float32_def)

lemma float32_1: "float32 1 = 1"
  using float32_binade [of 0 1] by (simp add: round_half_even_def)

lemma float32_minus_1: "float32 (- 1) = - 1"
  using float32_binade [of 0 "- 1"] by (simp add: round_half_even_def)

lemma float32_2: "float32 2 = 2"
  using float32_binade [of 1 2] by (simp add: round_half_even_def)

lemma float32_4: "float32 4 = 4"
  using float32_binade [of 2 4] by (simp add: round_half_even_def)

text \<open>\<open>4 + 2\<^sup>-\<^sup>2\<^sup>3\<close> lies a quarter of the way from 4 to the next binary32 number.\<close>

lemma float32_above_4: "float32 (33554433 / 8388608) = 4"
  using float32_binade [of 2 "33554433 / 8388608"] by (simp add: round_half_even_def)

subsection \<open>The perturbation\<close>



lemma perturb_zero:
  assumes "\<forall>el\<in>set els. 0 \<le> el \<and> el < int (length new_centers)"
    and "length dds = length new_centers" "binary32_centers new_centers"
  shows "perturb dds dds new_centers els = Inr new_centers"
  using assms(1)
proof (induction els)
  case Nil
  then show ?case by simp
next
  case (Cons el els)
  then have el: "0 \<le> el" "el < int (length new_centers)" by simp_all
  with assms(2) have d: "py_index dds el = Inr (dds ! nat el)"
    by (simp add: py_index_valid)
  from el have c: "py_index new_centers el = Inr (new_centers ! nat el)"
    by (simp add: py_index_valid)
  from el have "new_centers ! nat el \<in> set new_centers" by simp
  with assms(3) have r: "float32 (fst (new_centers ! nat el)) = fst (new_centers ! nat el)"
    "float32 (snd (new_centers ! nat el)) = snd (new_centers ! nat el)"
    by (simp_all add: binary32_centers_def)
  from Cons show ?case
    by (simp add: d c r float32_0 py_setitem_same [OF c])
qed

subsection \<open>The sampling loops\<close>

lemma py_index_laplace_sampling:
  "s < n_samples \<Longrightarrow>
   py_index (laplace_sampling laplace_d n_samples noise) (int s) =
     Inr (map (\<lambda>(i, (mu, bi)). mu + bi * noise s i) (enumerate 0 laplace_d))"
  by (simp add: py_index_nat laplace_sampling_def)

lemma laplace_row_zero_scale:
  fixes dds stds :: "real list"
  assumes "length dds = length stds" "\<forall>b\<in>set stds. b = 0"
  shows "map (\<lambda>(i, (mu, bi)). mu + bi * noise s i) (enumerate 0 (zip dds stds)) = dds"
proof (rule nth_equalityI)
  show "length (map (\<lambda>(i, (mu, bi)). mu + bi * noise s i) (enumerate 0 (zip dds stds)))
          = length dds"
    using assms(1) by simp
next
  fix i
  assume "i < length (map (\<lambda>(i, (mu, bi)). mu + bi * noise s i) (enumerate 0 (zip dds stds)))"
  then have i: "i < length dds" "i < length stds" using assms(1) by simp_all
  then have "stds ! i = 0" using assms(2) by (metis nth_mem)
  with i show "map (\<lambda>(i, (mu, bi)). mu + bi * noise s i) (enumerate 0 (zip dds stds)) ! i
                 = dds ! i"
    by (simp add: nth_enumerate_eq)
qed


lemma sample_loop_constant:
  assumes "\<forall>s\<in>set ss. \<exists>sample. py_index samples_d (int s) = Inr sample
              \<and> perturb dds sample centers [idx, idx_t] = Inr new_centers"
    and "check_f_formations idx idx_t new_centers angles radii social_distance = Inr b"
  shows "sample_loop idx idx_t centers angles dds samples_d radii social_distance ss =
           Inr (replicate (length ss) b)"
  using assms(1)
proof (induction ss)
  case Nil
  then show ?case by simp
next
  case (Cons s ss)
  then obtain sample where "py_index samples_d (int s) = Inr sample"
    "perturb dds sample centers [idx, idx_t] = Inr new_centers" by auto
  with Cons assms(2) show ?case by (simp del: perturb.simps)
qed


lemma fraction_of_constant_samples:
  assumes "2 \<le> n_samples" "0 < threshold_prob" "threshold_prob \<le> 1"
  shows "(threshold_prob \<le> sum_list (map of_bool (replicate (nat n_samples) b))
                 / real_of_int n_samples) = b"
proof (cases b)
  case True
  with assms show ?thesis by (simp add: sum_list_replicate)
next
  case False
  with assms show ?thesis by (simp add: sum_list_replicate)
qed

lemma probabilistic_loop_zero:
  assumes "\<forall>s < nat n_samples. py_index samples_d (int s) = Inr dds"
    and "0 \<le> idx" "idx < int (length centers)" "\<forall>j\<in>set indices. j < length centers"
    and "length dds = length centers" "length angles = length centers"
    and "binary32_centers centers"
    and "2 \<le> n_samples" "0 < threshold_prob" "threshold_prob \<le> 1"
  shows "probabilistic_loop idx centers angles dds samples_d social_distance n_samples
           threshold_prob radii indices =
         Inr (\<exists>j\<in>set indices.
                check_f_formations idx (int j) centers angles radii social_distance = Inr True)"
  using assms(4)
proof (induction indices)
  case Nil
  then show ?case by simp
next
  case (Cons j js)
  then have j: "j < length centers" by simp
  then obtain b where b: "check_f_formations idx (int j) centers angles radii social_distance = Inr b"
    using check_f_formations_valid [OF assms(2,3) _ _ assms(6), of "int j"] by simp
  have p: "perturb dds dds centers [idx, int j] = Inr centers"
    using assms(2,3,5,7) j by (intro perturb_zero) simp_all
  have "sample_loop idx (int j) centers angles dds samples_d radii social_distance
          [0..<nat n_samples] = Inr (replicate (length [0..<nat n_samples]) b)"
    using assms(1) p b by (intro sample_loop_constant [where new_centers = centers]) simp_all
  then have sl: "sample_loop idx (int j) centers angles dds samples_d radii social_distance
          [0..<nat n_samples] = Inr (replicate (nat n_samples) b)" by simp
  note frac = fraction_of_constant_samples [OF assms(8-10)]
  from Cons b show ?case
    by (cases b) (simp_all add: sl frac del: map_replicate)
qed


lemma candidates_in_range:
  "\<forall>j\<in>set (close_indices (center_distances c centers) threshold_dist). j < length centers"
  by (simp add: set_close_indices length_center_distances)

text \<open>
  Zero noise scales and centers that the conversion to \<open>float32\<close> leaves as they are:
  the samples are the depths, the perturbation is zero, and the two paths of the model
  agree. The conversion of the coordinates is then the only source of the difference
  that claim C7 meets below.
\<close>

lemma zero_scale_binary32_centers:
  fixes dds stds :: "real list"
  assumes "0 \<le> idx" "idx < int (length centers)" "length angles = length centers"
    and "length dds = length centers" "length stds = length centers" "\<forall>b\<in>set stds. b = 0"
    and "binary32_centers centers"
    and "0 < threshold_prob" "threshold_prob \<le> 1" "2 \<le> n_samples" "m < 2"
  shows "\<exists>b. social_interactions idx centers angles (Some dds) (Some stds) social_distance
               n_samples threshold_prob threshold_dist radii noise = Inr b
           \<and> social_interactions idx centers angles (Some dds) (Some stds) social_distance
               m threshold_prob threshold_dist radii noise = Inr b"
proof -
  let ?dds = "map float32 dds"
  let ?stds = "map float32 stds"
  let ?samples = "laplace_sampling (zip ?dds ?stds) (nat n_samples) noise"
  have z: "\<forall>b\<in>set ?stds. b = 0" using assms(6) by (auto simp: float32_0)
  have rows: "\<forall>s < nat n_samples. py_index ?samples (int s) = Inr ?dds"
    using assms(4,5) z by (simp add: py_index_laplace_sampling laplace_row_zero_scale)
  have len: "length ?dds = length centers" using assms(4) by simp
  have "probabilistic_loop idx centers angles ?dds ?samples social_distance n_samples
          threshold_prob radii
          (close_indices (center_distances (centers ! nat idx) centers) threshold_dist) =
     Inr (\<exists>j\<in>set (close_indices (center_distances (centers ! nat idx) centers) threshold_dist).
            check_f_formations idx (int j) centers angles radii social_distance = Inr True)"
    by (rule probabilistic_loop_zero
        [OF rows assms(1,2) candidates_in_range len assms(3,7,10,8,9)])
  with assms(1,2,4,5,10) have "social_interactions idx centers angles (Some dds) (Some stds)
      social_distance n_samples threshold_prob threshold_dist radii noise =
     Inr (\<exists>j\<in>set (close_indices (center_distances (centers ! nat idx) centers) threshold_dist).
            check_f_formations idx (int j) centers angles radii social_distance = Inr True)"
    by (simp add: social_interactions_def py_index_valid Let_def)
  then show ?thesis
    by (simp add: social_interactions_deterministic [OF assms(1-3,11)])
qed

lemma close_indices_pair:
  "0 < a \<Longrightarrow> a \<le> t \<Longrightarrow> close_indices (center_distances (0, 0) [(0, 0), (a, 0)]) t = [1]"
  by (simp add: close_indices_def center_distances_def argsort_def upt_rec)

lemma other_centers_pair: "other_centers 0 1 [x, y] = []"
  by (simp add: other_centers_def enumerate_eq_zip upt_rec)

lemma norm2_axis: "norm2 (x, 0) = \<bar>x\<bar>"
  by (simp add: norm2_def)

lemma check_facing_pair:
  assumes "2 \<le> a"
  shows "check_f_formations 0 1 [(0, 0), (a, 0)] [0, pi] [1] False = Inr (a \<le> 4)"
proof -
  have "orientation_condition (0, 0) (a, 0) 0 pi False 1 \<longleftrightarrow> \<bar>2 - a\<bar> \<le> \<bar>a / 2\<bar>"
    by (simp add: orientation_condition_def o_space_center_def facing_point_def vsub_def
        norm2_axis)
  also have "\<dots> \<longleftrightarrow> a \<le> 4" using assms by (simp add: abs_if)
  finally show ?thesis
    by (simp add: check_f_formations_valid radius_test_conditions other_centers_pair)
qed

lemma perturb_above_4:
  "perturb [1, 4] [1, 4] [(0, 0), (33554433 / 8388608, 0)] [0, 1] = Inr [(0, 0), (4, 0)]"
  by (simp add: py_index_def py_setitem_def atan2_def float32_0 float32_1 float32_4
      float32_above_4)

text \<open>
  Claim C7. With every noise scale zero and \<open>threshold_prob\<close> in \<open>(0, 1]\<close> the
  probabilistic path should return what the deterministic path returns. It does not:
  lines 66 and 67 add a \<open>float32\<close> tensor to each coordinate of the two people tested,
  which rounds the coordinate to binary32 also when the tensor is zero. Two people face
  each other, one at the origin and one at \<open>x = 4 + 2\<^sup>-\<^sup>2\<^sup>3\<close>. On their positions the
  orientation condition fails at radius 1 (\<open>d_new = 2 + 2\<^sup>-\<^sup>2\<^sup>3\<close> against
  \<open>2 + 2\<^sup>-\<^sup>2\<^sup>4\<close>), and the deterministic path returns false. The probabilistic
  path tests the second person at \<open>x = 4\<close>, where \<open>d_new = 2\<close> against 2, in every
  sample, and returns true.
\<close>

theorem zero_uncertainty_diverges:
  "social_interactions 0 [(0, 0), (4 + 1 / 2 ^ 23, 0)] [0, pi] (Some [1, 4]) (Some [0, 0])
     False 2 (1 / 4) 5 [1] zero_noise = Inr True
   \<and> social_interactions 0 [(0, 0), (4 + 1 / 2 ^ 23, 0)] [0, pi] (Some [1, 4]) (Some [0, 0])
     False 1 (1 / 4) 5 [1] zero_noise = Inr False"
proof -
  let ?cs = "[(0, 0), (33554433 / 8388608, 0)] :: center list"
  have c: "close_indices (center_distances (0, 0) ?cs) 5 = [1]"
    by (rule close_indices_pair) simp_all
  have det: "check_f_formations 0 1 ?cs [0, pi] [1] False = Inr False"
    using check_facing_pair [of "33554433 / 8388608"] by simp
  have rounded: "check_f_formations 0 1 [(0, 0), (4, 0)] [0, pi] [1] False = Inr True"
    using check_facing_pair [of 4] by simp
  have row: "py_index (laplace_sampling (zip [1, 4] [0, 0]) 2 zero_noise) (int s) = Inr [1, 4]"
    if "s < 2" for s
    using that by (simp add: py_index_laplace_sampling enumerate_eq_zip upt_rec)
  have rows: "\<forall>s\<in>set [0..<2]. \<exists>sample.
      py_index (laplace_sampling (zip [1, 4] [0, 0]) 2 zero_noise) (int s) = Inr sample
      \<and> perturb [1, 4] sample ?cs [0, 1] = Inr [(0, 0), (4, 0)]"
    using perturb_above_4 row by auto
  have sl: "sample_loop 0 1 ?cs [0, pi] [1, 4]
              (laplace_sampling (zip [1, 4] [0, 0]) 2 zero_noise) [1] False [0..<2]
            = Inr (replicate (length [0..<2 :: nat]) True)"
    using sample_loop_constant [OF rows, of "[0, pi]" "[1]" False True] rounded by simp
  have prob: "social_interactions 0 ?cs [0, pi] (Some [1, 4]) (Some [0, 0])
     False 2 (1 / 4) 5 [1] zero_noise = Inr True"
    using sl by (simp add: social_interactions_def py_index_def Let_def c float32_0 float32_1
        float32_4 sum_list_replicate del: perturb.simps)
  have "social_interactions 0 ?cs [0, pi] (Some [1, 4]) (Some [0, 0])
     False 1 (1 / 4) 5 [1] zero_noise = Inr False"
    by (simp add: social_interactions_deterministic c det)
  with prob show ?thesis by simp
qed

subsection \<open>Errors\<close>






section \<open>The store: what a call leaves behind\<close>

lemma heap_extends_refl: "heap_extends h h"
  by (simp add: heap_extends_def)

lemma heap_extends_trans: "heap_extends h h1 \<Longrightarrow> heap_extends h1 h2 \<Longrightarrow> heap_extends h h2"
  by (auto simp: heap_extends_def)

lemma heap_extends_append: "heap_extends h (h @ xs)"
  by (simp add: heap_extends_def nth_append)

lemma heap_extends_update:
  "heap_extends h h' \<Longrightarrow> length h \<le> a \<Longrightarrow> heap_extends h (h'[a := v])"
  by (auto simp: heap_extends_def)

lemma deepcopy_items_fresh:
  assumes "deepcopy_items h memo as = Inr (h', bs)"
    and "\<forall>(a, a')\<in>set memo. n0 \<le> a'"
    and "n0 \<le> length h"
  shows "heap_extends h h' \<and> (\<forall>b\<in>set bs. n0 \<le> b)"
  using assms
proof (induction as arbitrary: h memo h' bs)
  case Nil
  then show ?case by (simp add: heap_extends_refl)
next
  case (Cons a as)
  show ?case
  proof (cases "map_of memo a")
    case (Some a')
    with Cons.prems(1) obtain bs' where r: "deepcopy_items h memo as = Inr (h', bs')"
      and bs: "bs = a' # bs'"
      by (auto split: sum.splits)
    from Some have "(a, a') \<in> set memo" by (rule map_of_SomeD)
    with Cons.prems(2) have "n0 \<le> a'" by auto
    with Cons.IH [OF r Cons.prems(2,3)] bs show ?thesis by simp
  next
    case None
    with Cons.prems(1) obtain fs bs' where fs: "heap_floats h a = Inr fs"
      and r: "deepcopy_items (h @ [Floats fs]) ((a, length h) # memo) as = Inr (h', bs')"
      and bs: "bs = length h # bs'"
      by (auto split: sum.splits)
    have m: "\<forall>(a, a')\<in>set ((a, length h) # memo). n0 \<le> a'"
      using Cons.prems(2,3) by auto
    have "n0 \<le> length (h @ [Floats fs])" using Cons.prems(3) by simp
    from Cons.IH [OF r m this]
    have "heap_extends (h @ [Floats fs]) h'" and "\<forall>b\<in>set bs'. n0 \<le> b" by simp_all
    with heap_extends_trans [OF heap_extends_append] bs Cons.prems(3) show ?thesis
      by auto
  qed
qed

lemma deepcopy_fresh:
  assumes "deepcopy h centers = Inr (h1, new_centers)"
  shows "heap_extends h h1 \<and> new_centers = length h \<and>
         (\<exists>bs. heap_refs h1 new_centers = Inr bs \<and> (\<forall>b\<in>set bs. length h \<le> b))"
proof -
  from assms obtain rs h' bs where
    items: "deepcopy_items (h @ [Refs []]) [] rs = Inr (h', bs)"
    and h1: "h1 = h'[length h := Refs bs]" and nc: "new_centers = length h"
    by (auto simp: deepcopy_def Let_def split: sum.splits)
  have f: "heap_extends (h @ [Refs []]) h' \<and> (\<forall>b\<in>set bs. length h \<le> b)"
    by (rule deepcopy_items_fresh [OF items]) simp_all
  then have ext: "heap_extends h h'"
    using heap_extends_trans [OF heap_extends_append] by blast
  from f have len: "length h < length h'" by (simp add: heap_extends_def)
  have "heap_extends h h1" unfolding h1 by (rule heap_extends_update [OF ext]) simp
  moreover have "heap_refs h1 new_centers = Inr bs"
    using len by (simp add: heap_refs_def h1 nc)
  ultimately show ?thesis using f nc by blast
qed

lemma perturb_st_frame:
  assumes "perturb_st h dds sample new_centers els = (r, h')"
    and "heap_refs h new_centers = Inr rs" "\<forall>b\<in>set rs. n0 \<le> b"
  shows "length h' = length h \<and> (\<forall>a < n0. h' ! a = h ! a)"
  using assms
proof (induction els arbitrary: h)
  case Nil
  then show ?case by simp
next
  case (Cons el els)
  show ?case
  proof (cases "\<exists>d sd a c. py_index dds el = Inr d \<and> py_index sample el = Inr sd \<and>
                  py_index rs el = Inr a \<and> load_center h a = Inr c")
    case False
    with Cons.prems(1,2) have "h' = h"
      by (auto split: sum.splits)
    then show ?thesis by simp
  next
    case True
    then obtain d sd a c where st: "py_index dds el = Inr d" "py_index sample el = Inr sd"
      "py_index rs el = Inr a" "load_center h a = Inr c" by blast
    from st(3) have "a \<in> set rs"
      by (auto simp: py_index_def split: if_splits)
    with Cons.prems(3) have a: "n0 \<le> a" by simp
    from st(4) obtain fs where fs: "a < length h" "h ! a = Floats fs"
      by (auto simp: load_center_def heap_floats_def split: sum.splits if_splits pyobj.splits)
    from Cons.prems(2) have nc: "new_centers < length h" "h ! new_centers = Refs rs"
      by (auto simp: heap_refs_def split: if_splits pyobj.splits)
    with fs have ne: "a \<noteq> new_centers" by auto
    define delta_d where "delta_d = float32 (d - sd)"
    define theta where "theta = atan2 (snd c) (fst c)"
    define fs1 where "fs1 = fs[0 := float32 (float32 (fs ! 0)
                                   + float32 (delta_d * float32 (cos theta)))]"
    define h1 where "h1 = h[a := Floats fs1]"
    define h2 where "h2 = h1[a := Floats (fs1[1 := float32 (float32 (fs1 ! 1)
                                   + float32 (delta_d * float32 (sin theta)))])]"
    have rec: "perturb_st h2 dds sample new_centers els = (r, h')"
      using Cons.prems(1,2) st fs
      by (simp add: Let_def h1_def h2_def fs1_def delta_d_def theta_def)
    have refs2: "heap_refs h2 new_centers = Inr rs"
      using nc ne by (simp add: heap_refs_def h2_def h1_def)
    from Cons.IH [OF rec refs2 Cons.prems(3)]
    have "length h' = length h2" "\<forall>a < n0. h' ! a = h2 ! a" by simp_all
    moreover have "length h2 = length h" by (simp add: h2_def h1_def)
    moreover have "\<forall>b < n0. h2 ! b = h ! b" using a by (simp add: h2_def h1_def)
    ultimately show ?thesis by simp
  qed
qed

lemma sample_loop_st_frame:
  "sample_loop_st h idx idx_t centers angles dds samples_d radii social_distance ss = (r, h')
   \<Longrightarrow> heap_extends h h'"
proof (induction ss arbitrary: h r h')
  case Nil
  then show ?case by (simp add: heap_extends_refl)
next
  case (Cons s ss)
  show ?case
  proof (cases "deepcopy h centers")
    case (Inl e)
    with Cons.prems show ?thesis by (simp add: heap_extends_refl)
  next
    case (Inr p)
    then obtain h1 new_centers where dc: "deepcopy h centers = Inr (h1, new_centers)"
      by (cases p) auto
    from deepcopy_fresh [OF dc] obtain bs where
      ext1: "heap_extends h h1" and refs: "heap_refs h1 new_centers = Inr bs"
      and fresh: "\<forall>b\<in>set bs. length h \<le> b" by blast
    show ?thesis
    proof (cases "py_index samples_d (int s)")
      case (Inl e)
      with Cons.prems dc ext1 show ?thesis by simp
    next
      case (Inr sample)
      obtain e h2 where p: "perturb_st h1 dds sample new_centers [idx, idx_t] = (e, h2)"
        by (cases "perturb_st h1 dds sample new_centers [idx, idx_t]") auto
      from perturb_st_frame [OF p refs fresh]
      have "length h2 = length h1" "\<forall>a < length h. h2 ! a = h1 ! a" by simp_all
      with ext1 have ext2: "heap_extends h h2" by (simp add: heap_extends_def)
      show ?thesis
      proof (cases "\<exists>cs b. e = None \<and> load_centers h2 new_centers = Inr cs \<and>
               check_f_formations idx idx_t cs angles radii social_distance = Inr b")
        case False
        with Cons.prems dc Inr p have "h' = h2"
          by (auto split: sum.splits option.splits)
        with ext2 show ?thesis by simp
      next
        case True
        then obtain cs b where ok: "e = None" "load_centers h2 new_centers = Inr cs"
          "check_f_formations idx idx_t cs angles radii social_distance = Inr b" by blast
        obtain r3 h3 where rec: "sample_loop_st h2 idx idx_t centers angles dds samples_d
                              radii social_distance ss = (r3, h3)"
          by (cases "sample_loop_st h2 idx idx_t centers angles dds samples_d
                              radii social_distance ss") auto
        with Cons.prems dc Inr p ok have "h' = h3"
          by (auto split: sum.splits)
        with Cons.IH [OF rec] ext2 show ?thesis
          by (auto intro: heap_extends_trans)
      qed
    qed
  qed
qed

lemma probabilistic_loop_st_frame:
  "probabilistic_loop_st h idx centers angles dds samples_d social_distance n_samples
     threshold_prob radii indices = (r, h') \<Longrightarrow> heap_extends h h'"
proof (induction indices arbitrary: h r h')
  case Nil
  then show ?case by (simp add: heap_extends_refl)
next
  case (Cons j js)
  obtain r1 h1 where sl: "sample_loop_st h idx (int j) centers angles dds samples_d radii
      social_distance [0..<nat n_samples] = (r1, h1)"
    by (cases "sample_loop_st h idx (int j) centers angles dds samples_d radii
      social_distance [0..<nat n_samples]") auto
  note ext1 = sample_loop_st_frame [OF sl]
  show ?case
  proof (cases r1)
    case (Inl e)
    with Cons.prems sl ext1 show ?thesis by simp
  next
    case (Inr f_forms)
    show ?thesis
    proof (cases "threshold_prob \<le> sum_list (map of_bool f_forms) / real_of_int n_samples")
      case True
      with Cons.prems sl Inr ext1 show ?thesis by simp
    next
      case False
      with Cons.prems sl Inr have "probabilistic_loop_st h1 idx centers angles dds samples_d
          social_distance n_samples threshold_prob radii js = (r, h')" by simp
      from Cons.IH [OF this] ext1 show ?thesis by (rule heap_extends_trans [rotated])
    qed
  qed
qed

lemma social_interactions_st_frame:
  assumes "social_interactions_st h idx centers angles dds stds social_distance n_samples
     threshold_prob threshold_dist radii noise = (r, h')"
  shows "heap_extends h h'"
proof (cases "\<exists>cs thetas c ds ss. load_centers h centers = Inr cs \<and> heap_floats h angles = Inr thetas
          \<and> py_index cs idx = Inr c \<and> \<not> n_samples < 2 \<and> dds = Some ds \<and> stds = Some ss
          \<and> length ds = length ss")
  case False
  with assms have "h' = h"
    by (auto simp: social_interactions_st_def Let_def split: sum.splits option.splits if_splits)
  then show ?thesis by (simp add: heap_extends_refl)
next
  case True
  then obtain cs thetas c ds ss where "load_centers h centers = Inr cs"
    "heap_floats h angles = Inr thetas" "py_index cs idx = Inr c" "\<not> n_samples < 2"
    "dds = Some ds" "stds = Some ss" "length ds = length ss" by blast
  with assms have "probabilistic_loop_st h idx centers thetas (map float32 ds)
      (laplace_sampling (zip (map float32 ds) (map float32 ss)) (nat n_samples) noise)
      social_distance n_samples
      threshold_prob radii (close_indices (center_distances c cs) threshold_dist) = (r, h')"
    by (simp add: social_interactions_st_def Let_def)
  then show ?thesis by (rule probabilistic_loop_st_frame)
qed

lemma load_center_extends:
  "heap_extends h h' \<Longrightarrow> load_center h a = Inr c \<Longrightarrow> load_center h' a = Inr c"
  by (auto simp: load_center_def heap_floats_def heap_extends_def split: if_splits)

lemma load_all_extends:
  "heap_extends h h' \<Longrightarrow> load_all h rs = Inr cs \<Longrightarrow> load_all h' rs = Inr cs"
  by (induction rs arbitrary: cs) (auto split: sum.splits dest: load_center_extends)

lemma heap_refs_extends:
  "heap_extends h h' \<Longrightarrow> heap_refs h a = Inr rs \<Longrightarrow> heap_refs h' a = Inr rs"
  by (auto simp: heap_refs_def heap_extends_def split: if_splits)

lemma heap_floats_extends:
  "heap_extends h h' \<Longrightarrow> heap_floats h a = Inr fs \<Longrightarrow> heap_floats h' a = Inr fs"
  by (auto simp: heap_floats_def heap_extends_def split: if_splits)

lemma load_centers_extends:
  "heap_extends h h' \<Longrightarrow> load_centers h centers = Inr cs \<Longrightarrow> load_centers h' centers = Inr cs"
proof -
  assume e: "heap_extends h h'" and l: "load_centers h centers = Inr cs"
  from l obtain rs where rs: "heap_refs h centers = Inr rs" "load_all h rs = Inr cs"
    by (auto simp: load_centers_def split: sum.splits)
  from heap_refs_extends [OF e rs(1)] load_all_extends [OF e rs(2)]
  show ?thesis by (simp add: load_centers_def)
qed

lemma length_load_all: "load_all h rs = Inr cs \<Longrightarrow> length cs = length rs"
  by (induction rs arbitrary: cs) (auto split: sum.splits)

lemma load_all_nth:
  "load_all h rs = Inr cs \<Longrightarrow> k < length rs \<Longrightarrow> load_center h (rs ! k) = Inr (cs ! k)"
proof (induction rs arbitrary: cs k)
  case Nil
  then show ?case by simp
next
  case (Cons a rs)
  then show ?case by (cases k) (auto split: sum.splits)
qed

lemma load_all_eqI:
  "length cs = length rs \<Longrightarrow> (\<And>k. k < length rs \<Longrightarrow> load_center h (rs ! k) = Inr (cs ! k))
   \<Longrightarrow> load_all h rs = Inr cs"
proof (induction rs arbitrary: cs)
  case Nil
  then show ?case by simp
next
  case (Cons a rs)
  then obtain c cs' where cs: "cs = c # cs'" by (cases cs) auto
  from Cons.prems(2) [of 0] cs have c: "load_center h a = Inr c" by simp
  have "load_all h rs = Inr cs'"
  proof (rule Cons.IH)
    show "length cs' = length rs" using Cons.prems(1) cs by simp
    fix k assume "k < length rs"
    then show "load_center h (rs ! k) = Inr (cs' ! k)"
      using Cons.prems(2) [of "Suc k"] cs by simp
  qed
  with c cs show ?case by simp
qed

lemma deepcopy_items_copies:
  assumes "load_all h as = Inr cs" "distinct as" "set as \<inter> fst ` set memo = {}"
  shows "\<exists>h' bs. deepcopy_items h memo as = Inr (h', bs) \<and> heap_extends h h'
           \<and> load_all h' bs = Inr cs \<and> distinct bs \<and> (\<forall>b\<in>set bs. length h \<le> b)"
  using assms
proof (induction as arbitrary: h memo cs)
  case Nil
  then show ?case by (simp add: heap_extends_refl)
next
  case (Cons a as)
  from Cons.prems(1) obtain c cs' where c: "load_center h a = Inr c"
    and rest: "load_all h as = Inr cs'" and cs: "cs = c # cs'"
    by (auto split: sum.splits)
  from c obtain fs where fs: "heap_floats h a = Inr fs"
    by (auto simp: load_center_def split: sum.splits)
  from Cons.prems(3) have none: "map_of memo a = None"
    by (auto simp: map_of_eq_None_iff)
  let ?h1 = "h @ [Floats fs]"
  have e1: "heap_extends h ?h1" by (rule heap_extends_append)
  have "\<exists>h' bs. deepcopy_items ?h1 ((a, length h) # memo) as = Inr (h', bs)
          \<and> heap_extends ?h1 h' \<and> load_all h' bs = Inr cs' \<and> distinct bs
          \<and> (\<forall>b\<in>set bs. length ?h1 \<le> b)"
  proof (rule Cons.IH)
    show "load_all ?h1 as = Inr cs'" by (rule load_all_extends [OF e1 rest])
    show "distinct as" using Cons.prems(2) by simp
    show "set as \<inter> fst ` set ((a, length h) # memo) = {}"
      using Cons.prems(2,3) by auto
  qed
  then obtain h' bs where r: "deepcopy_items ?h1 ((a, length h) # memo) as = Inr (h', bs)"
    and e2: "heap_extends ?h1 h'" and l: "load_all h' bs = Inr cs'" and d: "distinct bs"
    and f: "\<forall>b\<in>set bs. length ?h1 \<le> b" by blast
  have "load_center ?h1 (length h) = Inr c"
    using c fs by (simp add: load_center_def heap_floats_def)
  then have "load_center h' (length h) = Inr c" by (rule load_center_extends [OF e2])
  moreover have "length h \<notin> set bs" using f by auto
  moreover have "heap_extends h h'" by (rule heap_extends_trans [OF e1 e2])
  ultimately show ?case
    using none fs r l d f cs by auto
qed

lemma load_center_update_other:
  "a \<noteq> b \<Longrightarrow> load_center (h[b := v]) a = load_center h a"
  by (simp add: load_center_def heap_floats_def)

lemma load_all_update_other:
  "b \<notin> set rs \<Longrightarrow> load_all (h[b := v]) rs = load_all h rs"
  by (induction rs) (auto simp: load_center_update_other split: sum.splits)

lemma deepcopy_copies:
  assumes "heap_refs h centers = Inr rs" "load_all h rs = Inr cs" "distinct rs"
  shows "\<exists>h1 new_centers bs. deepcopy h centers = Inr (h1, new_centers)
           \<and> heap_refs h1 new_centers = Inr bs \<and> load_all h1 bs = Inr cs \<and> distinct bs"
proof -
  let ?h0 = "h @ [Refs []]"
  have "load_all ?h0 rs = Inr cs"
    by (rule load_all_extends [OF heap_extends_append assms(2)])
  from deepcopy_items_copies [OF this assms(3), of "[]"]
  obtain h' bs where r: "deepcopy_items ?h0 [] rs = Inr (h', bs)"
    and e: "heap_extends ?h0 h'" and l: "load_all h' bs = Inr cs" and d: "distinct bs"
    and f: "\<forall>b\<in>set bs. length ?h0 \<le> b" by auto
  from e have len: "length h < length h'" by (simp add: heap_extends_def)
  from f have "length h \<notin> set bs" by auto
  then have "load_all (h'[length h := Refs bs]) bs = Inr cs"
    using l by (simp add: load_all_update_other)
  moreover have "heap_refs (h'[length h := Refs bs]) (length h) = Inr bs"
    using len by (simp add: heap_refs_def)
  ultimately show ?thesis
    using assms(1) r d by (simp add: deepcopy_def Let_def)
qed

lemma py_index_error_same_length:
  "py_index xs i = Inl e \<Longrightarrow> length ys = length xs \<Longrightarrow> py_index ys i = Inl e"
  by (auto simp: py_index_def split: if_splits)

lemma load_center_written:
  assumes "a < length h" "h ! a = Floats fs" "load_center h a = Inr c"
  shows "load_center (h[a := Floats (fs[0 := x, 1 := z])]) a = Inr (x, z)"
proof -
  from assms have "2 \<le> length fs"
    by (auto simp: load_center_def heap_floats_def py_index_def split: if_splits sum.splits)
  then have "fs \<noteq> []" "1 < length fs" by auto
  with assms(1) show ?thesis
    by (simp add: load_center_def heap_floats_def py_index_def)
qed

lemma load_center_fields:
  assumes "load_center h a = Inr c"
  obtains fs where "a < length h" "h ! a = Floats fs" "fs ! 0 = fst c" "fs ! 1 = snd c"
  using assms
  by (auto simp: load_center_def heap_floats_def py_index_def
      split: if_splits sum.splits pyobj.splits)

lemma perturb_st_refines:
  assumes "heap_refs h new_centers = Inr bs" "distinct bs" "load_all h bs = Inr cs"
  shows "case perturb dds sample cs els of
           Inl e \<Rightarrow> fst (perturb_st h dds sample new_centers els) = Some e
         | Inr cs' \<Rightarrow> (\<exists>h'. perturb_st h dds sample new_centers els = (None, h')
                         \<and> heap_refs h' new_centers = Inr bs \<and> load_all h' bs = Inr cs')"
  using assms
proof (induction els arbitrary: h cs)
  case Nil
  then show ?case by simp
next
  case (Cons el els)
  note len = length_load_all [OF Cons.prems(3)]
  show ?case
  proof (cases "py_index dds el")
    case (Inl e)
    then show ?thesis by simp
  next
    case d: (Inr d)
    show ?thesis
    proof (cases "py_index sample el")
      case (Inl e)
      with d show ?thesis by simp
    next
      case sd: (Inr sd)
      show ?thesis
      proof (cases "py_index cs el")
        case (Inl e)
        have "py_index bs el = Inl e"
          using py_index_error_same_length [OF Inl, of bs] len by simp
        with Inl d sd Cons.prems(1) show ?thesis by simp
      next
        case (Inr c)
        define k where "k = (if 0 \<le> el then nat el else nat (int (length cs) + el))"
        from Inr have k12: "k < length cs" "c = cs ! k"
          by (auto simp: py_index_def k_def split: if_splits)
        have k3: "py_setitem cs el v = cs[k := v]" for v
          by (simp add: py_setitem_def k_def)
        from Inr have k4: "py_index bs el = Inr (bs ! k)"
          using len by (auto simp: py_index_def k_def split: if_splits)
        note k = k12 k3 k4
        let ?a = "bs ! k"
        from k(1) len have kb: "k < length bs" by simp
        have lc: "load_center h ?a = Inr c"
          using load_all_nth [OF Cons.prems(3) kb] k(2) by simp
        then obtain fs where fs: "?a < length h" "h ! ?a = Floats fs" "fs ! 0 = fst c"
          "fs ! 1 = snd c" by (rule load_center_fields)
        from Cons.prems(1) have nc: "new_centers < length h" "h ! new_centers = Refs bs"
          by (auto simp: heap_refs_def split: if_splits pyobj.splits)
        with fs have ne: "?a \<noteq> new_centers" by auto
        define x' where "x' = float32 (float32 (fst c)
                   + float32 (float32 (d - sd) * float32 (cos (atan2 (snd c) (fst c)))))"
        define z' where "z' = float32 (float32 (snd c)
                   + float32 (float32 (d - sd) * float32 (sin (atan2 (snd c) (fst c)))))"
        define h2 where "h2 = h[?a := Floats (fs[0 := x', 1 := z'])]"
        have step_st: "perturb_st h dds sample new_centers (el # els) =
                         perturb_st h2 dds sample new_centers els"
          using d sd Cons.prems(1) k(4) lc fs
          by (simp add: Let_def h2_def x'_def z'_def)
        have step: "perturb dds sample cs (el # els) = perturb dds sample (cs[k := (x', z')]) els"
          using d sd Inr k(3) by (simp add: Let_def x'_def z'_def)
        have refs2: "heap_refs h2 new_centers = Inr bs"
          using nc ne by (simp add: heap_refs_def h2_def)
        have load2: "load_all h2 bs = Inr (cs[k := (x', z')])"
        proof (rule load_all_eqI)
          show "length (cs[k := (x', z')]) = length bs" using len by simp
          fix j assume j: "j < length bs"
          show "load_center h2 (bs ! j) = Inr (cs[k := (x', z')] ! j)"
          proof (cases "j = k")
            case True
            with k(1) load_center_written [OF fs(1,2) lc] show ?thesis
              by (simp add: h2_def)
          next
            case False
            with Cons.prems(2) j kb have "bs ! j \<noteq> ?a"
              by (simp add: nth_eq_iff_index_eq)
            with False load_all_nth [OF Cons.prems(3) j] show ?thesis
              by (simp add: h2_def load_center_update_other)
          qed
        qed
        from Cons.IH [OF refs2 Cons.prems(2) load2] show ?thesis
          by (simp only: step step_st)
      qed
    qed
  qed
qed

lemma sample_loop_st_refines:
  assumes "heap_refs h centers = Inr rs" "distinct rs" "load_all h rs = Inr cs"
  shows "fst (sample_loop_st h idx idx_t centers angles dds samples_d radii social_distance ss)
           = sample_loop idx idx_t cs angles dds samples_d radii social_distance ss"
  using assms(1,3)
proof (induction ss arbitrary: h)
  case Nil
  then show ?case by simp
next
  case (Cons s ss)
  from deepcopy_copies [OF Cons.prems(1,2) assms(2)] obtain h1 new_centers bs
    where dc: "deepcopy h centers = Inr (h1, new_centers)"
      and refs1: "heap_refs h1 new_centers = Inr bs" and load1: "load_all h1 bs = Inr cs"
      and dist: "distinct bs" by blast
  from deepcopy_fresh [OF dc] refs1 have ext1: "heap_extends h h1"
    and fresh: "\<forall>b\<in>set bs. length h \<le> b" by auto
  show ?case
  proof (cases "py_index samples_d (int s)")
    case (Inl e)
    with dc show ?thesis by simp
  next
    case (Inr sample)
    obtain r2 h2 where p: "perturb_st h1 dds sample new_centers [idx, idx_t] = (r2, h2)"
      by (cases "perturb_st h1 dds sample new_centers [idx, idx_t]") auto
    note ref = perturb_st_refines [OF refs1 dist load1, of dds sample "[idx, idx_t]"]
    show ?thesis
    proof (cases "perturb dds sample cs [idx, idx_t]")
      case (Inl e)
      with ref p have "r2 = Some e" by simp
      with dc Inr p Inl show ?thesis by (simp del: perturb.simps perturb_st.simps)
    next
      case pc: (Inr cs')
      with ref p have r2: "r2 = None" and refs2: "heap_refs h2 new_centers = Inr bs"
        and load2: "load_all h2 bs = Inr cs'" by auto
      then have lc2: "load_centers h2 new_centers = Inr cs'" by (simp add: load_centers_def)
      from perturb_st_frame [OF p refs1 fresh]
      have "length h2 = length h1" "\<forall>a < length h. h2 ! a = h1 ! a" by simp_all
      with ext1 have ext2: "heap_extends h h2" by (simp add: heap_extends_def)
      have IH: "fst (sample_loop_st h2 idx idx_t centers angles dds samples_d radii
                      social_distance ss)
                = sample_loop idx idx_t cs angles dds samples_d radii social_distance ss"
        by (rule Cons.IH [OF heap_refs_extends [OF ext2 Cons.prems(1)]
              load_all_extends [OF ext2 Cons.prems(2)]])
      show ?thesis
      proof (cases "check_f_formations idx idx_t cs' angles radii social_distance")
        case (Inl e)
        with dc Inr p r2 lc2 pc show ?thesis by (simp del: perturb.simps perturb_st.simps)
      next
        case cb: (Inr b)
        obtain r3 h3 where rec: "sample_loop_st h2 idx idx_t centers angles dds samples_d radii
                      social_distance ss = (r3, h3)"
          by (cases "sample_loop_st h2 idx idx_t centers angles dds samples_d radii
                      social_distance ss") auto
        with IH have r3: "sample_loop idx idx_t cs angles dds samples_d radii
                             social_distance ss = r3" by simp
        from dc Inr p r2 lc2 pc cb rec r3 show ?thesis
          by (cases r3) (simp_all del: perturb.simps perturb_st.simps)
      qed
    qed
  qed
qed

lemma probabilistic_loop_st_refines:
  assumes "heap_refs h centers = Inr rs" "distinct rs" "load_all h rs = Inr cs"
  shows "fst (probabilistic_loop_st h idx centers angles dds samples_d social_distance
                n_samples threshold_prob radii indices)
           = probabilistic_loop idx cs angles dds samples_d social_distance n_samples
               threshold_prob radii indices"
  using assms(1,3)
proof (induction indices arbitrary: h)
  case Nil
  then show ?case by simp
next
  case (Cons j js)
  obtain r1 h1 where sl: "sample_loop_st h idx (int j) centers angles dds samples_d radii
      social_distance [0..<nat n_samples] = (r1, h1)"
    by (cases "sample_loop_st h idx (int j) centers angles dds samples_d radii
      social_distance [0..<nat n_samples]") auto
  from sample_loop_st_refines [OF Cons.prems(1) assms(2) Cons.prems(2), of idx "int j" angles
      dds samples_d radii social_distance "[0..<nat n_samples]"] sl
  have r1: "sample_loop idx (int j) cs angles dds samples_d radii social_distance
              [0..<nat n_samples] = r1" by simp
  note ext = sample_loop_st_frame [OF sl]
  have IH: "fst (probabilistic_loop_st h1 idx centers angles dds samples_d social_distance
                n_samples threshold_prob radii js)
           = probabilistic_loop idx cs angles dds samples_d social_distance n_samples
               threshold_prob radii js"
    by (rule Cons.IH [OF heap_refs_extends [OF ext Cons.prems(1)]
          load_all_extends [OF ext Cons.prems(2)]])
  show ?case
  proof (cases r1)
    case (Inl e)
    with sl r1 show ?thesis by simp
  next
    case (Inr f_forms)
    with sl r1 IH show ?thesis by simp
  qed
qed

lemma social_interactions_st_refines:
  assumes "heap_refs h centers = Inr rs" "distinct rs" "load_all h rs = Inr cs"
    and "heap_floats h angles = Inr thetas"
  shows "fst (social_interactions_st h idx centers angles dds stds social_distance n_samples
                threshold_prob threshold_dist radii noise)
           = social_interactions idx cs thetas dds stds social_distance n_samples
               threshold_prob threshold_dist radii noise"
proof -
  from assms(1,3) have lc: "load_centers h centers = Inr cs" by (simp add: load_centers_def)
  note pl = probabilistic_loop_st_refines [OF assms(1-3)]
  show ?thesis
    by (simp add: social_interactions_st_def social_interactions_def lc assms(4) Let_def pl
        split: sum.splits option.splits)
qed

text \<open>
  What the copy and the perturbation do to a store of two centers, the list of them and
  the angles: the copy is three fresh objects, and the perturbation writes into the two
  fresh inner lists only.
\<close>

lemma atan2_axis: "atan2 0 0 = 0" "atan2 0 2 = 0"
  by (simp_all add: atan2_def)

lemma deepcopy_example:
  "deepcopy [Floats [0, 0], Floats [2, 0], Refs [0, 1], Floats [0, pi]] 2 =
     Inr ([Floats [0, 0], Floats [2, 0], Refs [0, 1], Floats [0, pi],
           Refs [5, 6], Floats [0, 0], Floats [2, 0]], 4)"
  by (simp add: deepcopy_def heap_refs_def heap_floats_def Let_def)

lemma perturb_st_example:
  "perturb_st [Floats [0, 0], Floats [2, 0], Refs [0, 1], Floats [0, pi],
               Refs [5, 6], Floats [0, 0], Floats [2, 0]] [1, 2] [2, 3] 4 [0, 1] =
     (None, [Floats [0, 0], Floats [2, 0], Refs [0, 1], Floats [0, pi],
             Refs [5, 6], Floats [- 1, 0], Floats [1, 0]])"
  by (simp add: heap_refs_def heap_floats_def load_center_def py_index_def atan2_axis Let_def
      float32_0 float32_1 float32_minus_1 float32_2)

text \<open>
  Claim C8. Whatever \<open>social_interactions\<close> returns or raises, on either path, the
  caller's \<open>centers\<close> (the list and each position in it) and \<open>angles\<close> hold afterwards
  what they held before, and so does every other object that existed before the call:
  the perturbations go to fresh deep copies. Nor does one sample see another's
  perturbation: when the inner lists of \<open>centers\<close> are distinct objects, the result is
  the one computed from the caller's positions by value.
\<close>

theorem caller_data_unchanged:
  assumes "social_interactions_st h idx centers angles dds stds social_distance n_samples
             threshold_prob threshold_dist radii noise = (r, h')"
    and "heap_refs h centers = Inr rs" "load_all h rs = Inr cs"
    and "heap_floats h angles = Inr thetas"
  shows "heap_refs h' centers = Inr rs \<and> load_all h' rs = Inr cs
       \<and> heap_floats h' angles = Inr thetas
       \<and> heap_extends h h'
       \<and> (distinct rs \<longrightarrow>
            r = social_interactions idx cs thetas dds stds social_distance n_samples
                  threshold_prob threshold_dist radii noise)"
proof -
  have ext: "heap_extends h h'" by (rule social_interactions_st_frame [OF assms(1)])
  have "r = social_interactions idx cs thetas dds stds social_distance n_samples
                  threshold_prob threshold_dist radii noise" if "distinct rs"
    using social_interactions_st_refines [OF assms(2) that assms(3,4), of idx dds stds
        social_distance n_samples threshold_prob threshold_dist radii noise] assms(1)
    by simp
  with ext heap_refs_extends [OF ext assms(2)] load_all_extends [OF ext assms(3)]
    heap_floats_extends [OF ext assms(4)]
  show ?thesis by blast
qed

theorem caller_data_unchanged_witness:
  "load_centers
     (snd (social_interactions_st [Floats [0, 0], Floats [2, 0], Refs [0, 1], Floats [0, pi]]
             0 2 3 (Some [1, 2]) (Some [1, 1]) False 2 (1 / 4) 2 [1] (\<lambda>s i. 1))) 2
     = Inr [(0, 0), (2, 0)]
   \<and> heap_floats
     (snd (social_interactions_st [Floats [0, 0], Floats [2, 0], Refs [0, 1], Floats [0, pi]]
             0 2 3 (Some [1, 2]) (Some [1, 1]) False 2 (1 / 4) 2 [1] (\<lambda>s i. 1))) 3
     = Inr [0, pi]"
proof -
  let ?h = "[Floats [0, 0], Floats [2, 0], Refs [0, 1], Floats [0, pi]]"
  let ?run = "social_interactions_st ?h 0 2 3 (Some [1, 2]) (Some [1, 1]) False 2 (1 / 4) 2 [1]
                (\<lambda>s i. 1)"
  have 1: "?run = (fst ?run, snd ?run)" by simp
  have 2: "heap_refs ?h 2 = Inr [0, 1]" by (simp add: heap_refs_def)
  have 3: "load_all ?h [0, 1] = Inr [(0, 0), (2, 0)]"
    by (simp add: load_center_def heap_floats_def py_index_def)
  have 4: "heap_floats ?h 3 = Inr [0, pi]" by (simp add: heap_floats_def)
  from caller_data_unchanged [OF 1 2 3 4] show ?thesis
    by (simp add: load_centers_def)
qed


end
